theory Spec2Isabelle
  imports Main "HOL-Library.Sublist"
begin

section \<open>Python strings\<close>

text \<open>
  A Python \<open>str\<close> is modelled as a \<open>string\<close> whose characters are the code points
  0..255. On this range \<open>str.lower\<close> works character by character and
  \<open>str.isspace\<close>, \<open>str.strip\<close>, \<open>str.split\<close> and the regular-expression class
  \<open>\s\<close> agree on which characters are white space.
\<close>

definition isspace :: "char \<Rightarrow> bool" where
  "isspace c =
     (let n = (of_char c :: nat)
      in (9 \<le> n \<and> n \<le> 13) \<or> (28 \<le> n \<and> n \<le> 32) \<or> n = 133 \<or> n = 160)"

definition isdigit :: "char \<Rightarrow> bool" where
  "isdigit c = (let n = (of_char c :: nat) in 48 \<le> n \<and> n \<le> 57)"

definition isupper :: "char \<Rightarrow> bool" where
  "isupper c =
     (let n = (of_char c :: nat)
      in (65 \<le> n \<and> n \<le> 90) \<or> (192 \<le> n \<and> n \<le> 222 \<and> n \<noteq> 215))"

text \<open>The lower-case partner of an upper-case code point below 256 is 32 above it (bit 5).\<close>

definition lower_char :: "char \<Rightarrow> char" where
  "lower_char c =
     (if isupper c
      then (case c of Char b0 b1 b2 b3 b4 b5 b6 b7 \<Rightarrow> Char b0 b1 b2 b3 b4 True b6 b7)
      else c)"

definition lower :: "string \<Rightarrow> string" where
  "lower s = map lower_char s"

definition lstrip :: "string \<Rightarrow> string" where
  "lstrip s = dropWhile isspace s"

definition rstrip :: "string \<Rightarrow> string" where
  "rstrip s = rev (dropWhile isspace (rev s))"

definition strip :: "string \<Rightarrow> string" where
  "strip s = rstrip (lstrip s)"

definition startswith :: "string \<Rightarrow> string \<Rightarrow> bool" where
  "startswith s p = prefix p s"

definition endswith :: "string \<Rightarrow> string \<Rightarrow> bool" where
  "endswith s p = suffix p s"

text \<open>\<open>p in s\<close>: \<open>p\<close> occurs in \<open>s\<close> as a contiguous substring.\<close>

fun contains :: "string \<Rightarrow> string \<Rightarrow> bool" where
  "contains [] p = (p = [])"
| "contains (x # xs) p = (prefix p (x # xs) \<or> contains xs p)"

text \<open>\<open>s.split()[0]\<close>: the first white-space separated token, if there is one.\<close>

definition first_token :: "string \<Rightarrow> string option" where
  "first_token s =
     (let t = lstrip s in if t = [] then None else Some (takeWhile (\<lambda>c. \<not> isspace c) t))"

section \<open>Regular expressions of the rule table\<close>

text \<open>
  The patterns of \<open>ai_agent.py\<close> use literals, \<open>^\<close>, \<open>$\<close>, the classes \<open>\s\<close>, \<open>\d\<close>
  and \<open>.\<close>, the postfix operators \<open>*\<close> and \<open>+\<close> on a single class, and one group of
  literal alternatives. A pattern is the list of its items in writing order.
\<close>

datatype cls = AnyChar | Space | Digit

datatype item =
    Bol
  | Eol
  | Lit string
  | One cls
  | Star cls
  | Plus cls
  | AltLit "string list"

fun cls_ok :: "cls \<Rightarrow> char \<Rightarrow> bool" where
  "cls_ok AnyChar c = (c \<noteq> CHR 0x0A)"
| "cls_ok Space c = isspace c"
| "cls_ok Digit c = isdigit c"

text \<open>
  \<open>matches_at p b s\<close>: some prefix of \<open>s\<close> matches the whole of \<open>p\<close>; \<open>b\<close> tells
  whether \<open>s\<close> starts at position 0 of the subject. \<open>^\<close> holds at position 0 only, \<open>$\<close>
  at the end of the subject or before a final newline. Backtracking over \<open>*\<close> and
  \<open>+\<close> is the disjunction.
\<close>

function matches_at :: "item list \<Rightarrow> bool \<Rightarrow> string \<Rightarrow> bool" where
  "matches_at [] b s = True"
| "matches_at (Bol # p) b s = (b \<and> matches_at p b s)"
| "matches_at (Eol # p) b s = ((s = [] \<or> s = [CHR 0x0A]) \<and> matches_at p b s)"
| "matches_at (Lit l # p) b s =
     (prefix l s \<and> matches_at p (b \<and> l = []) (drop (length l) s))"
| "matches_at (One c # p) b [] = False"
| "matches_at (One c # p) b (x # xs) = (cls_ok c x \<and> matches_at p False xs)"
| "matches_at (Star c # p) b [] = matches_at p b []"
| "matches_at (Star c # p) b (x # xs) =
     (matches_at p b (x # xs) \<or> (cls_ok c x \<and> matches_at (Star c # p) False xs))"
| "matches_at (Plus c # p) b [] = False"
| "matches_at (Plus c # p) b (x # xs) = (cls_ok c x \<and> matches_at (Star c # p) False xs)"
| "matches_at (AltLit ls # p) b s =
     (\<exists>l \<in> set ls. prefix l s \<and> matches_at p (b \<and> l = []) (drop (length l) s))"
  by pat_completeness auto
termination
  by (relation "measures [\<lambda>(p, b, s). length p, \<lambda>(p, b, s). length s]") auto

text \<open>\<open>re.match(pattern, string)\<close> as a truth value: a match that starts at position 0.\<close>

definition re_match :: "item list \<Rightarrow> string \<Rightarrow> bool" where
  "re_match p s = matches_at p True s"

text \<open>
  Substring matching, as the description of the classifier has it beside prefix matching
  and as the rules without \<open>^\<close> are written for: the pattern matches from some position
  of the subject (\<open>re.search\<close> as a truth value). Only the attempt at position 0 is at
  the start of the subject. The classifier does not call it.
\<close>

fun occurs_from :: "item list \<Rightarrow> bool \<Rightarrow> string \<Rightarrow> bool" where
  "occurs_from p b [] = matches_at p b []"
| "occurs_from p b (x # xs) = (matches_at p b (x # xs) \<or> occurs_from p False xs)"

definition re_search :: "item list \<Rightarrow> string \<Rightarrow> bool" where
  "re_search p s = occurs_from p True s"

section \<open>Safety classifier (\<open>ai_agent.py\<close>)\<close>

record SafetyRule =
  pattern :: "item list"
  allowed :: bool
  reason :: string
  auto_execute :: bool

definition mk_rule :: "item list \<Rightarrow> bool \<Rightarrow> string \<Rightarrow> bool \<Rightarrow> SafetyRule" where
  "mk_rule p a r x = \<lparr>pattern = p, allowed = a, reason = r, auto_execute = x\<rparr>"

text \<open>The information-gathering rules of \<open>_init_safety_rules\<close>, in declaration order.\<close>

definition safe_rules :: "SafetyRule list" where
  "safe_rules =
   [ mk_rule [Bol, Lit ''ls'', One Space] True ''Safe file listing'' True,
     mk_rule [Bol, Lit ''find'', One Space, Star AnyChar, Lit ''-type'', Plus Space, Lit ''f'',
              Star AnyChar, Lit ''-exec'', Plus Space, Lit ''ls'', Plus Space, Lit ''-lh'']
       True ''Safe file search with size'' True,
     mk_rule [Bol, Lit ''du'', Plus Space, Lit ''-h'', Star AnyChar, Lit ''--max-depth'']
       True ''Safe disk usage check'' True,
     mk_rule [Bol, Lit ''df'', Plus Space, Lit ''-h''] True ''Safe disk space check'' True,
     mk_rule [Bol, Lit ''wc'', Plus Space, Lit ''-l''] True ''Safe line count'' True,
     mk_rule [Bol, Lit ''file'', Plus Space] True ''Safe file type detection'' True,
     mk_rule [Bol, Lit ''head'', Plus Space, Lit ''-n'', Plus Space, Plus Digit]
       True ''Safe file preview'' True,
     mk_rule [Bol, Lit ''tail'', Plus Space, Lit ''-n'', Plus Space, Plus Digit]
       True ''Safe file preview'' True,
     mk_rule [Bol, Lit ''grep'', Plus Space, Star AnyChar, Lit ''--color=never'']
       True ''Safe text search'' True,
     mk_rule [Bol, Lit ''stat'', Plus Space] True ''Safe file statistics'' True,
     mk_rule [Bol, Lit ''pwd'', Eol] True ''Safe current directory'' True,
     mk_rule [Bol, Lit ''whoami'', Eol] True ''Safe user info'' True,
     mk_rule [Bol, Lit ''uname'', Plus Space, Lit ''-a''] True ''Safe system info'' True,
     mk_rule [Bol, Lit ''ps'', Plus Space, Lit ''aux''] True ''Safe process listing'' True,
     mk_rule [Bol, Lit ''top'', Plus Space, Lit ''-b'', Plus Space, Lit ''-n1'']
       True ''Safe system snapshot'' True,
     mk_rule [Bol, Lit ''free'', Plus Space, Lit ''-h''] True ''Safe memory info'' True,
     mk_rule [Bol, Lit ''uptime'', Eol] True ''Safe uptime info'' True,
     mk_rule [Bol, Lit ''cat'', Plus Space, Star AnyChar, Lit ''.'',
              AltLit [''txt'', ''log'', ''conf'', ''json'', ''xml'', ''csv''], Eol]
       True ''Safe text file reading'' True ]"

text \<open>The restricted rules of \<open>_init_safety_rules\<close>, in declaration order.\<close>

definition restricted_rules :: "SafetyRule list" where
  "restricted_rules =
   [ mk_rule [Bol, Lit ''rm'', Plus Space] False ''File deletion not allowed'' False,
     mk_rule [Bol, Lit ''sudo'', Plus Space] False ''Elevated privileges not allowed'' False,
     mk_rule [Bol, Lit ''chmod'', Plus Space] False ''Permission changes not allowed'' False,
     mk_rule [Bol, Lit ''chown'', Plus Space] False ''Ownership changes not allowed'' False,
     mk_rule [Bol, Lit ''mv'', Plus Space] False ''File moving not allowed'' False,
     mk_rule [Bol, Lit ''cp'', Plus Space, Star AnyChar, Lit ''>'', Star Space, Lit ''/'']
       False ''System file copying not allowed'' False,
     mk_rule [Lit ''>'', Star Space, Lit ''/etc/'']
       False ''System directory writing not allowed'' False,
     mk_rule [Lit ''>'', Star Space, Lit ''/usr/'']
       False ''System directory writing not allowed'' False,
     mk_rule [Lit ''>'', Star Space, Lit ''/bin/'']
       False ''System directory writing not allowed'' False,
     mk_rule [Bol, Lit ''dd'', Plus Space] False ''Direct disk access not allowed'' False,
     mk_rule [Bol, Lit ''fdisk'', Plus Space] False ''Disk partitioning not allowed'' False,
     mk_rule [Bol, Lit ''mkfs'', Plus Space] False ''Filesystem creation not allowed'' False,
     mk_rule [Bol, Lit ''mount'', Plus Space] False ''Mounting not allowed'' False,
     mk_rule [Bol, Lit ''umount'', Plus Space] False ''Unmounting not allowed'' False,
     mk_rule [Bol, Lit ''kill'', Plus Space, Lit ''-9''] False ''Force kill not allowed'' False,
     mk_rule [Bol, Lit ''killall'', Plus Space]
       False ''Mass process termination not allowed'' False,
     mk_rule [Bol, Lit ''shutdown'', Plus Space] False ''System shutdown not allowed'' False,
     mk_rule [Bol, Lit ''reboot'', Plus Space] False ''System reboot not allowed'' False,
     mk_rule [Bol, Lit ''poweroff'', Plus Space] False ''System poweroff not allowed'' False,
     mk_rule [Bol, Lit ''halt'', Plus Space] False ''System halt not allowed'' False,
     mk_rule [Lit ''curl'', Star AnyChar, Lit ''|'', Star Space, Lit ''bash'']
       False ''Piped execution not allowed'' False,
     mk_rule [Lit ''wget'', Star AnyChar, Lit ''|'', Star Space, Lit ''bash'']
       False ''Piped execution not allowed'' False ]"

definition init_safety_rules :: "SafetyRule list" where
  "init_safety_rules = safe_rules @ restricted_rules"

record AIAgent =
  safety_rules :: "SafetyRule list"

definition AIAgent_init :: AIAgent where
  "AIAgent_init = \<lparr>safety_rules = init_safety_rules\<rparr>"

text \<open>The local list \<open>safe_patterns\<close> of \<open>check_command_safety\<close>.\<close>

definition safe_patterns :: "item list list" where
  "safe_patterns =
   [ [Bol, Lit ''echo'', Plus Space],
     [Bol, Lit ''which'', Plus Space],
     [Bol, Lit ''type'', Plus Space],
     [Bol, Lit ''history'', Star Space, Eol],
     [Bol, Lit ''date'', Star Space, Eol] ]"

text \<open>The value a matching rule makes \<open>check_command_safety\<close> return.\<close>

definition rule_result :: "SafetyRule \<Rightarrow> bool \<times> bool \<times> string" where
  "rule_result rule = (allowed rule, auto_execute rule \<and> allowed rule, reason rule)"

text \<open>The loop over \<open>self.safety_rules\<close>: the first rule that matches returns.\<close>

fun check_rules :: "SafetyRule list \<Rightarrow> string \<Rightarrow> (bool \<times> bool \<times> string) option" where
  "check_rules [] command_lower = None"
| "check_rules (rule # rules) command_lower =
     (if re_match (pattern rule) command_lower then Some (rule_result rule)
      else check_rules rules command_lower)"

fun check_safe_patterns :: "item list list \<Rightarrow> string \<Rightarrow> (bool \<times> bool \<times> string) option" where
  "check_safe_patterns [] command_lower = None"
| "check_safe_patterns (p # ps) command_lower =
     (if re_match p command_lower then Some (True, True, ''Basic safe command'')
      else check_safe_patterns ps command_lower)"

definition check_command_safety :: "AIAgent \<Rightarrow> string \<Rightarrow> bool \<times> bool \<times> string" where
  "check_command_safety self command =
     (let command_lower = strip (lower command)
      in case check_rules (safety_rules self) command_lower of
           Some r \<Rightarrow> r
         | None \<Rightarrow>
             (case check_safe_patterns safe_patterns command_lower of
                Some r \<Rightarrow> r
              | None \<Rightarrow> (True, False, ''Requires user confirmation'')))"

section \<open>Exceptions, call outcomes and the state of the process\<close>

text \<open>
  \<open>OSError m\<close> is an \<open>OSError\<close> (or a subclass) whose text is \<open>m\<close>; \<open>Error m\<close> is any
  other subclass of \<open>Exception\<close> (\<open>NameError\<close>, \<open>ValueError\<close>, \<open>TimeoutExpired\<close>, ...);
  \<open>KeyboardInterrupt\<close> derives from \<open>BaseException\<close> only, so \<open>except Exception\<close> does
  not catch it and a bare \<open>except:\<close> does.
\<close>

datatype exn = OSError string | Error string | KeyboardInterrupt

fun str_exn :: "exn \<Rightarrow> string" where
  "str_exn (OSError m) = m"
| "str_exn (Error m) = m"
| "str_exn KeyboardInterrupt = []"

fun is_Exception :: "exn \<Rightarrow> bool" where
  "is_Exception (OSError m) = True"
| "is_Exception (Error m) = True"
| "is_Exception KeyboardInterrupt = False"

text \<open>What a call does: it returns a value or raises.\<close>

datatype 'a res = Ret 'a | Raise exn

datatype fd = Master | Slave

datatype signal = SIGTERM | SIGKILL

text \<open>
  The seven-element attribute list of \<open>termios.tcgetattr\<close>. As a Python value it is a
  non-empty list, hence true in \<open>if old_settings:\<close>.
\<close>

datatype termios = Termios nat nat nat nat nat nat "nat list"

text \<open>The calls with an effect outside the interpreter, logged when they are issued.\<close>

datatype event =
    Chdir string
  | Shell string string
  | Popen string string
  | Close fd
  | SetRaw
  | TcSetAttr termios
  | Write string
  | Print string
  | Killpg signal
  | Wait "nat option"
  | Console string

text \<open>
  \<open>current_dir\<close> is \<open>self.current_dir\<close> of \<open>NLShell\<close>, \<open>cwd\<close> the working directory of the
  process (\<open>os.getcwd()\<close>), \<open>tty_attrs\<close> the attributes of the terminal behind
  \<open>sys.stdin\<close>, \<open>calls\<close> the effects issued so far.
\<close>

record shell_state =
  current_dir :: string
  cwd :: string
  tty_attrs :: termios
  calls :: "event list"

definition log :: "event \<Rightarrow> shell_state \<Rightarrow> shell_state" where
  "log e st = st\<lparr>calls := calls st @ [e]\<rparr>"

text \<open>A command's result \<open>(returncode, stdout, stderr)\<close>.\<close>

type_synonym result = "int \<times> string \<times> string"

text \<open>
  A function of the shell returns \<open>None\<close> when it never returns (a child that never
  exits), otherwise the value it returns or the exception that leaves it, with the state.
\<close>

type_synonym 'a run = "('a res \<times> shell_state) option"

section \<open>The environment\<close>

text \<open>
  One turn of the multiplexing loop as the environment plays it: what \<open>process.poll()\<close>,
  \<open>select.select\<close> (stdin ready, master ready), \<open>sys.stdin.read(1)\<close>, \<open>os.write\<close>,
  \<open>os.read\<close> and \<open>print\<close> do, and whether a \<open>SIGINT\<close> reaches the process while
  \<open>select\<close> waits. The bytes read are identified with their decoding.
\<close>

record tick =
  poll_r :: "int option res"
  sigint_r :: bool
  select_r :: "(bool \<times> bool) res"
  stdin_read_r :: "string res"
  write_r :: "unit res"
  read_r :: "string res"
  print_r :: "unit res"

text \<open>One turn of the final read loop: \<open>select\<close> (master ready), \<open>os.read\<close>, \<open>print\<close>.\<close>

record drain_tick =
  dselect_r :: "bool res"
  dread_r :: "string res"
  dprint_r :: "unit res"

text \<open>
  What the operating system does during one PTY session. \<open>wait_r = None\<close>: the
  \<open>process.wait()\<close> without timeout never returns. \<open>wait2_r\<close> is \<open>process.wait(timeout=2)\<close>,
  which raises \<open>TimeoutExpired\<close> when the child is still alive.
\<close>

record pty_env =
  openpty_r :: "unit res"
  popen_r :: "unit res"
  close_slave_r :: "unit res"
  tcgetattr_r :: "unit res"
  setraw_r :: "unit res"
  ticks :: "tick list"
  wait_r :: "int res option"
  drains :: "drain_tick list"
  getpgid_term_r :: "unit res"
  killpg_term_r :: "unit res"
  wait2_r :: "unit res"
  getpgid_kill_r :: "unit res"
  killpg_kill_r :: "unit res"
  tcsetattr_r :: "unit res"

text \<open>
  What \<open>asyncio.create_subprocess_shell\<close> followed by \<open>communicate\<close> does: one of them
  raises, the child never exits, or it exits with a return code and two byte strings,
  each of which \<open>decode('utf-8')\<close> turns into text or rejects.
\<close>

datatype proc_outcome = Raises exn | Hangs | Exits int "string res" "string res"

text \<open>
  Everything outside the shell, as functions of the state (which holds the history of
  calls). \<open>chdir_r\<close> gives the new working directory of a successful \<open>os.chdir\<close>;
  \<open>is_exec_file\<close> is \<open>os.path.isfile(p) and os.access(p, os.X_OK)\<close>; \<open>make_raw\<close> the
  attributes \<open>tty.setraw\<close> installs; \<open>confirm_r\<close> the answer to \<open>Confirm.ask\<close>.
  \<open>handle_command_error\<close> is \<open>_handle_command_error\<close>: the language model analyses the
  failure and may start a run of commands of its own; whatever it does is a change of the
  state. Console output through \<open>rich\<close> is not modelled, the notice of the signal handler
  apart.
\<close>

record env =
  home_r :: string
  expanduser_r :: "string \<Rightarrow> string"
  chdir_r :: "shell_state \<Rightarrow> string \<Rightarrow> string res"
  is_exec_file :: "shell_state \<Rightarrow> string \<Rightarrow> bool"
  shell_r :: "shell_state \<Rightarrow> string \<Rightarrow> string \<Rightarrow> proc_outcome"
  pty_r :: "shell_state \<Rightarrow> string \<Rightarrow> pty_env"
  make_raw :: "termios \<Rightarrow> termios"
  confirm_r :: "shell_state \<Rightarrow> bool"
  handle_command_error :: "string \<Rightarrow> int \<Rightarrow> string \<Rightarrow> string \<Rightarrow> shell_state \<Rightarrow> unit run"

text \<open>\<open>except Exception as e: return 1, "", str(e)\<close> around a body.\<close>

fun except_Exception :: "result run \<Rightarrow> result run" where
  "except_Exception None = None"
| "except_Exception (Some (Ret v, st)) = Some (Ret v, st)"
| "except_Exception (Some (Raise e, st)) =
     (if is_Exception e then Some (Ret (1, [], str_exn e), st) else Some (Raise e, st))"

text \<open>Spawning through the system shell and collecting the output (no handler).\<close>

definition run_shell :: "env \<Rightarrow> string \<Rightarrow> string \<Rightarrow> shell_state \<Rightarrow> result run" where
  "run_shell e command dir st =
     (let st1 = log (Shell command dir) st
      in case shell_r e st command dir of
           Raises x \<Rightarrow> Some (Raise x, st1)
         | Hangs \<Rightarrow> None
         | Exits returncode out err \<Rightarrow>
             (case out of
                Raise x \<Rightarrow> Some (Raise x, st1)
              | Ret stdout \<Rightarrow>
                  (case err of
                     Raise x \<Rightarrow> Some (Raise x, st1)
                   | Ret stderr \<Rightarrow> Some (Ret (returncode, stdout, stderr), st1))))"

text \<open>
  The argument of \<open>os.chdir\<close> in the \<open>cd\<close> branch: the text after \<open>cd \<close>, stripped,
  replaced by \<open>str(Path.home())\<close> when empty, then passed through \<open>os.path.expanduser\<close>.
\<close>

definition cd_target :: "env \<Rightarrow> string \<Rightarrow> string" where
  "cd_target e command =
     (let path = strip (drop 3 (strip command));
          path = (if path = [] then home_r e else path)
      in expanduser_r e path)"

section \<open>The agent's automatic execution (\<open>ai_agent.py\<close>)\<close>

text \<open>
  The names the module \<open>ai_agent\<close> binds at top level: its imports (the optional ones
  included) and its two classes. A name that is neither here nor a builtin raises
  \<open>NameError\<close> when it is evaluated.
\<close>

definition module_names :: "string list" where
  "module_names =
   [''os'', ''json'', ''mimetypes'', ''subprocess'', ''Path'', ''List'', ''Dict'', ''Any'',
    ''Optional'', ''Tuple'', ''re'', ''dataclass'', ''PyPDF2'', ''docx'', ''Image'', ''pd'',
    ''SafetyRule'', ''AIAgent'']"

definition name_error :: "string \<Rightarrow> exn" where
  "name_error n = Error (''name '' @ [CHR 0x27] @ n @ [CHR 0x27] @ '' is not defined'')"

definition auto_execute_safe_command :: "AIAgent \<Rightarrow> env \<Rightarrow> string \<Rightarrow> shell_state \<Rightarrow> result run" where
  "auto_execute_safe_command self e command st =
     (case check_command_safety self command of
        (is_safe, auto_exec, why) \<Rightarrow>
          if \<not> is_safe then Some (Ret (1, [], ''Command blocked for safety: '' @ why), st)
          else if \<not> auto_exec
          then Some (Ret (1, [], ''Command requires manual confirmation: '' @ why), st)
          else except_Exception
            (if startswith (strip command) ''cd '' then
               (let target = cd_target e command;
                    st1 = log (Chdir target) st
                in case chdir_r e st target of
                     Ret d \<Rightarrow> Some (Ret (0, ''Changed directory to '' @ d, []), st1\<lparr>cwd := d\<rparr>)
                   | Raise (OSError m) \<Rightarrow> Some (Ret (1, [], m), st1)
                   | Raise x \<Rightarrow> Some (Raise x, st1))
             else if ''asyncio'' \<in> set module_names
             then run_shell e command (cwd st) st
             else Some (Raise (name_error ''asyncio''), st)))"

section \<open>Interactivity detector (\<open>nlshell.py\<close>)\<close>

text \<open>
  The four lambdas of \<open>_is_interactive_command\<close>, in order; \<open>any\<close> is their disjunction.
  In the fourth, \<open>cmd.strip().split()[0]\<close> exists whenever \<open>'/' in cmd\<close> holds
  (lemma \<open>slash_has_token\<close>), so the \<open>None\<close> branch is never taken.
\<close>

definition is_interactive_command :: "env \<Rightarrow> shell_state \<Rightarrow> string \<Rightarrow> bool" where
  "is_interactive_command e st cmd =
     ((\<exists>ext \<in> set [''exe'', ''out'', ''bin''].
          startswith (strip cmd) (''./'' @ ext) \<or> endswith (strip cmd) (''.'' @ ext))
      \<or> (startswith (strip cmd) ''./'' \<and>
            \<not> (\<exists>ext \<in> set [''.txt'', ''.log'', ''.conf'']. contains cmd ext))
      \<or> (\<exists>prog \<in> set [''python -i'', ''node'', ''irb'', ''ghci'']. contains (lower cmd) prog)
      \<or> (contains cmd ''/'' \<and>
            (case first_token (strip cmd) of
               None \<Rightarrow> False
             | Some t \<Rightarrow> is_exec_file e st t)))"

section \<open>PTY session (\<open>_execute_interactive_command\<close>)\<close>

text \<open>
  \<open>NLShell.__init__\<close> installs \<open>_signal_handler\<close> for \<open>SIGINT\<close>, and nothing installs
  another handler later. The handler prints a notice (markup omitted here) and returns,
  so the interpreter raises no \<open>KeyboardInterrupt\<close> and resumes the interrupted call.
\<close>

definition interrupted_notice :: string where
  "interrupted_notice = ''Interrupted. Type '' @ [CHR 0x27] @ ''exit'' @ [CHR 0x27] @ '' to quit.''"

definition signal_handler :: "shell_state \<Rightarrow> shell_state" where
  "signal_handler st = log (Console interrupted_notice) st"

definition deliver_sigint :: "tick \<Rightarrow> shell_state \<Rightarrow> shell_state" where
  "deliver_sigint t st = (if sigint_r t then signal_handler st else st)"

text \<open>
  The first \<open>try\<close> of the loop body: read one character from stdin and forward it.
  The flag tells whether the bare \<open>except:\<close> ran, which leaves the loop.
\<close>

definition stdin_step :: "tick \<Rightarrow> shell_state \<Rightarrow> bool \<times> shell_state" where
  "stdin_step t st =
     (case stdin_read_r t of
        Raise x \<Rightarrow> (True, st)
      | Ret user_input \<Rightarrow>
          if user_input \<noteq> [] then
            (case write_r t of
               Raise x \<Rightarrow> (True, log (Write user_input) st)
             | Ret u \<Rightarrow> (False, log (Write user_input) st))
          else (False, st))"

text \<open>The second \<open>try\<close>: read the program's output, append it to the buffer, show it.\<close>

definition master_step :: "tick \<Rightarrow> string \<Rightarrow> shell_state \<Rightarrow> bool \<times> string \<times> shell_state" where
  "master_step t output_buffer st =
     (case read_r t of
        Raise x \<Rightarrow> (True, output_buffer, st)
      | Ret data \<Rightarrow>
          if data \<noteq> [] then
            (case print_r t of
               Raise x \<Rightarrow> (True, output_buffer @ data, log (Print data) st)
             | Ret u \<Rightarrow> (False, output_buffer @ data, log (Print data) st))
          else (False, output_buffer, st))"

text \<open>
  \<open>while process.poll() is None\<close>. The result is \<open>None\<close> when the turns run out with the
  child still alive; otherwise an exception that left the loop (from \<open>poll\<close> or
  \<open>select\<close>), the return code \<open>poll\<close> reported, or \<open>Ret None\<close> after a \<open>break\<close>.
  A \<open>SIGINT\<close> during \<open>select\<close> runs the installed handler before \<open>select\<close> completes.
\<close>

fun multiplex ::
  "tick list \<Rightarrow> string \<Rightarrow> shell_state \<Rightarrow> (int option res \<times> string \<times> shell_state) option"
where
  "multiplex [] output_buffer st = None"
| "multiplex (t # ts) output_buffer st =
     (case poll_r t of
        Raise x \<Rightarrow> Some (Raise x, output_buffer, st)
      | Ret (Some rc) \<Rightarrow> Some (Ret (Some rc), output_buffer, st)
      | Ret None \<Rightarrow>
          (case select_r t of
             Raise x \<Rightarrow> Some (Raise x, output_buffer, deliver_sigint t st)
           | Ret (stdin_ready, master_ready) \<Rightarrow>
               (case (if stdin_ready then stdin_step t (deliver_sigint t st)
                      else (False, deliver_sigint t st)) of
                  (True, st1) \<Rightarrow> Some (Ret None, output_buffer, st1)
                | (False, st1) \<Rightarrow>
                    (case (if master_ready then master_step t output_buffer st1
                           else (False, output_buffer, st1)) of
                       (True, buf, st2) \<Rightarrow> Some (Ret None, buf, st2)
                     | (False, buf, st2) \<Rightarrow> multiplex ts buf st2))))"

text \<open>
  The final read loop inside \<open>try: ... except: pass\<close>. \<open>None\<close>: the turns run out
  while the master still delivers data.
\<close>

fun drain :: "drain_tick list \<Rightarrow> string \<Rightarrow> shell_state \<Rightarrow> (string \<times> shell_state) option" where
  "drain [] output_buffer st = None"
| "drain (d # ds) output_buffer st =
     (case dselect_r d of
        Raise x \<Rightarrow> Some (output_buffer, st)
      | Ret False \<Rightarrow> Some (output_buffer, st)
      | Ret True \<Rightarrow>
          (case dread_r d of
             Raise x \<Rightarrow> Some (output_buffer, st)
           | Ret data \<Rightarrow>
               if data = [] then Some (output_buffer, st)
               else
                 (case dprint_r d of
                    Raise x \<Rightarrow> Some (output_buffer @ data, log (Print data) st)
                  | Ret u \<Rightarrow> drain ds (output_buffer @ data) (log (Print data) st))))"

text \<open>
  The body of the inner \<open>try\<close> (loop, \<open>process.wait()\<close>, final reads). After \<open>poll\<close>
  has reported a return code, \<open>wait\<close> returns that code at once.
\<close>

definition session_try :: "pty_env \<Rightarrow> shell_state \<Rightarrow> (int res \<times> string \<times> shell_state) option" where
  "session_try p st =
     (case multiplex (ticks p) [] st of
        None \<Rightarrow> None
      | Some (Raise x, buf, st1) \<Rightarrow> Some (Raise x, buf, st1)
      | Some (Ret polled, buf, st1) \<Rightarrow>
          (case (case polled of Some rc \<Rightarrow> Some (Ret rc) | None \<Rightarrow> wait_r p) of
             None \<Rightarrow> None
           | Some (Raise x) \<Rightarrow> Some (Raise x, buf, log (Wait None) st1)
           | Some (Ret returncode) \<Rightarrow>
               (case drain (drains p) buf (log (Wait None) st1) of
                  None \<Rightarrow> None
                | Some (buf2, st2) \<Rightarrow> Some (Ret returncode, buf2, st2))))"

text \<open>The second attempt of the handler: \<open>SIGKILL\<close>, then a wait of one second.\<close>

definition force_kill :: "pty_env \<Rightarrow> shell_state \<Rightarrow> shell_state" where
  "force_kill p st =
     (case getpgid_kill_r p of
        Raise x \<Rightarrow> st
      | Ret u \<Rightarrow>
          (case killpg_kill_r p of
             Raise x \<Rightarrow> log (Killpg SIGKILL) st
           | Ret u \<Rightarrow> log (Wait (Some 1)) (log (Killpg SIGKILL) st)))"

text \<open>\<open>except KeyboardInterrupt:\<close> up to \<open>returncode = -1\<close>.\<close>

definition on_interrupt :: "pty_env \<Rightarrow> shell_state \<Rightarrow> shell_state" where
  "on_interrupt p st =
     (case getpgid_term_r p of
        Raise x \<Rightarrow> force_kill p st
      | Ret u \<Rightarrow>
          (case killpg_term_r p of
             Raise x \<Rightarrow> force_kill p (log (Killpg SIGTERM) st)
           | Ret u \<Rightarrow>
               (case wait2_r p of
                  Raise x \<Rightarrow> force_kill p (log (Wait (Some 2)) (log (Killpg SIGTERM) st))
                | Ret u \<Rightarrow> log (Wait (Some 2)) (log (Killpg SIGTERM) st))))"

text \<open>
  Capturing the attributes and entering raw mode, inside \<open>try: ... except: pass\<close>:
  \<open>old_settings\<close> stays \<open>None\<close> when \<open>tcgetattr\<close> raises.
\<close>

definition enter_raw :: "env \<Rightarrow> pty_env \<Rightarrow> shell_state \<Rightarrow> termios option \<times> shell_state" where
  "enter_raw e p st =
     (case tcgetattr_r p of
        Raise x \<Rightarrow> (None, st)
      | Ret u \<Rightarrow>
          (case setraw_r p of
             Raise x \<Rightarrow> (Some (tty_attrs st), log SetRaw st)
           | Ret u \<Rightarrow> (Some (tty_attrs st), (log SetRaw st)\<lparr>tty_attrs := make_raw e (tty_attrs st)\<rparr>)))"

text \<open>The \<open>finally\<close> block: both calls sit in a \<open>try\<close> with a bare \<open>except: pass\<close>.\<close>

definition restore :: "pty_env \<Rightarrow> termios option \<Rightarrow> shell_state \<Rightarrow> shell_state" where
  "restore p old_settings st =
     log (Close Master)
       (case old_settings of
          None \<Rightarrow> st
        | Some a \<Rightarrow>
            (case tcsetattr_r p of
               Raise x \<Rightarrow> log (TcSetAttr a) st
             | Ret u \<Rightarrow> (log (TcSetAttr a) st)\<lparr>tty_attrs := a\<rparr>))"

text \<open>
  The session once the child runs and the slave end is closed: raw mode, the inner
  \<open>try\<close> with its \<open>KeyboardInterrupt\<close> handler and its \<open>finally\<close>, the return.
\<close>

definition session :: "env \<Rightarrow> pty_env \<Rightarrow> shell_state \<Rightarrow> result run" where
  "session e p st =
     (case enter_raw e p st of
        (old_settings, st1) \<Rightarrow>
          (case session_try p st1 of
             None \<Rightarrow> None
           | Some (Ret returncode, buf, st2) \<Rightarrow>
               Some (Ret (returncode, buf, []), restore p old_settings st2)
           | Some (Raise x, buf, st2) \<Rightarrow>
               if x = KeyboardInterrupt
               then Some (Ret (- 1, buf, []), restore p old_settings (on_interrupt p st2))
               else Some (Raise x, restore p old_settings st2)))"

definition execute_interactive_command :: "env \<Rightarrow> string \<Rightarrow> shell_state \<Rightarrow> result run" where
  "execute_interactive_command e command st =
     (let p = pty_r e st command
      in except_Exception
        (case openpty_r p of
           Raise x \<Rightarrow> Some (Raise x, st)
         | Ret u \<Rightarrow>
             (case popen_r p of
                Raise x \<Rightarrow> Some (Raise x, log (Popen command (current_dir st)) st)
              | Ret u \<Rightarrow>
                  (case close_slave_r p of
                     Raise x \<Rightarrow>
                       Some (Raise x, log (Close Slave) (log (Popen command (current_dir st)) st))
                   | Ret u \<Rightarrow>
                       session e p (log (Close Slave) (log (Popen command (current_dir st)) st))))))"

section \<open>Command dispatcher (\<open>_execute_command\<close>)\<close>

definition execute_command :: "env \<Rightarrow> string \<Rightarrow> shell_state \<Rightarrow> result run" where
  "execute_command e command st =
     except_Exception
       (if startswith (strip command) ''cd '' then
          (let target = cd_target e command;
               st1 = log (Chdir target) st
           in case chdir_r e st target of
                Ret d \<Rightarrow>
                  Some (Ret (0, ''Changed directory to '' @ d, []), st1\<lparr>cwd := d, current_dir := d\<rparr>)
              | Raise (OSError m) \<Rightarrow> Some (Ret (1, [], m), st1)
              | Raise x \<Rightarrow> Some (Raise x, st1))
        else if is_interactive_command e st command
        then execute_interactive_command e command st
        else run_shell e command (current_dir st) st)"

section \<open>Batch orchestrator (\<open>_execute_commands_with_confirmation\<close>)\<close>

text \<open>
  The \<open>for\<close> loop with its counter \<open>success_count\<close>. The three call sites of
  \<open>_execute_command\<close> differ in console decoration only.
\<close>

fun run_commands :: "env \<Rightarrow> bool \<Rightarrow> string list \<Rightarrow> nat \<Rightarrow> shell_state \<Rightarrow> nat run" where
  "run_commands e auto_confirm [] success_count st = Some (Ret success_count, st)"
| "run_commands e auto_confirm (command # rest) success_count st =
     (case execute_command e command st of
        None \<Rightarrow> None
      | Some (Raise x, st1) \<Rightarrow> Some (Raise x, st1)
      | Some (Ret (returncode, stdout, stderr), st1) \<Rightarrow>
          if returncode = 0 then run_commands e auto_confirm rest (success_count + 1) st1
          else if \<not> auto_confirm then
            (case handle_command_error e command returncode stdout stderr st1 of
               None \<Rightarrow> None
             | Some (Raise x, st2) \<Rightarrow> Some (Raise x, st2)
             | Some (Ret u, st2) \<Rightarrow> Some (Ret success_count, st2))
          else run_commands e auto_confirm rest success_count st1)"

definition execute_commands_with_confirmation ::
  "env \<Rightarrow> string list \<Rightarrow> bool \<Rightarrow> shell_state \<Rightarrow> bool run"
where
  "execute_commands_with_confirmation e commands auto_confirm st =
     (if commands = [] then Some (Ret False, st)
      else if \<not> auto_confirm \<and> \<not> confirm_r e st then Some (Ret False, st)
      else
        (case run_commands e auto_confirm commands 0 st of
           None \<Rightarrow> None
         | Some (Raise x, st1) \<Rightarrow> Some (Raise x, st1)
         | Some (Ret success_count, st1) \<Rightarrow> Some (Ret (0 < success_count), st1)))"

section \<open>Devices for the proofs\<close>

text \<open>
  The signature of a pattern: its leading literals with white space removed, read across
  items that match white space only. Every match of the pattern, white space removed,
  starts with it (lemma \<open>matches_at_sig\<close>). \<open>production_sigs\<close> lists the signatures of
  the table of \<open>_init_safety_rules\<close>.
\<close>

definition nospace :: "string \<Rightarrow> string" where
  "nospace s = filter (\<lambda>c. \<not> isspace c) s"

fun rx_sig :: "item list \<Rightarrow> string" where
  "rx_sig [] = []"
| "rx_sig (Bol # p) = rx_sig p"
| "rx_sig (Lit l # p) = nospace l @ rx_sig p"
| "rx_sig (One Space # p) = rx_sig p"
| "rx_sig (Star Space # p) = rx_sig p"
| "rx_sig (Plus Space # p) = rx_sig p"
| "rx_sig p = []"

definition incomparable :: "string \<Rightarrow> string \<Rightarrow> bool" where
  "incomparable g h \<longleftrightarrow> \<not> prefix g h \<and> \<not> prefix h g"

definition production_sigs :: "string list" where
  "production_sigs =
   [''ls'', ''find'', ''du-h'', ''df-h'', ''wc-l'', ''file'', ''head-n'', ''tail-n'', ''grep'',
    ''stat'', ''pwd'', ''whoami'', ''uname-a'', ''psaux'', ''top-b-n1'', ''free-h'', ''uptime'',
    ''cat'',
    ''rm'', ''sudo'', ''chmod'', ''chown'', ''mv'', ''cp'', ''>/etc/'', ''>/usr/'', ''>/bin/'',
    ''dd'', ''fdisk'', ''mkfs'', ''mount'', ''umount'', ''kill-9'', ''killall'', ''shutdown'',
    ''reboot'', ''poweroff'', ''halt'', ''curl'', ''wget'']"

text \<open>
  The calls of the \<open>finally\<close> block: \<open>tcsetattr\<close> and closing the master descriptor.
  Two states are \<open>quiet\<close> when the second adds no such call to the first and has the same
  terminal attributes.
\<close>

fun is_restore :: "event \<Rightarrow> bool" where
  "is_restore (TcSetAttr a) = True"
| "is_restore (Close Master) = True"
| "is_restore ev = False"

definition quiet :: "shell_state \<Rightarrow> shell_state \<Rightarrow> bool" where
  "quiet st st' \<longleftrightarrow>
     filter is_restore (calls st') = filter is_restore (calls st) \<and> tty_attrs st' = tty_attrs st"

text \<open>
  \<open>run_ok e cs st\<close>: every command of \<open>cs\<close>, dispatched in order from \<open>st\<close>, returns
  exit code 0; the value is the state after the last one.
\<close>

fun run_ok :: "env \<Rightarrow> string list \<Rightarrow> shell_state \<Rightarrow> shell_state option" where
  "run_ok e [] st = Some st"
| "run_ok e (command # rest) st =
     (case execute_command e command st of
        Some (Ret (returncode, out, err), st1) \<Rightarrow>
          if returncode = 0 then run_ok e rest st1 else None
      | _ \<Rightarrow> None)"

text \<open>Rule \<open>k\<close> of the table matches the normalised command.\<close>

abbreviation rule_matches :: "AIAgent \<Rightarrow> string \<Rightarrow> nat \<Rightarrow> bool" where
  "rule_matches self command k \<equiv>
     re_match (pattern (safety_rules self ! k)) (strip (lower command))"

section \<open>Concrete environments\<close>

text \<open>
  A terminal, a shell in \<open>/srv/app\<close>, and an environment in which \<open>false\<close> exits with
  code 1, every other command with code 0, only \<open>node_modules\<close> can be entered, and an
  interactive program prints a prompt and exits; then variations of the PTY session (a
  \<open>SIGINT\<close> reaches the shell; the user types Ctrl+C in raw mode and the child dies of the
  signal its own terminal sends it; \<open>select\<close> raises) and a rule table of two overlapping
  rules.
\<close>

definition attrs0 :: termios where
  "attrs0 = Termios 0 0 0 0 0 0 []"

definition state0 :: shell_state where
  "state0 = \<lparr>current_dir = ''/srv/app'', cwd = ''/srv/app'', tty_attrs = attrs0, calls = []\<rparr>"

definition idle_tick :: tick where
  "idle_tick = \<lparr>poll_r = Ret None, sigint_r = False, select_r = Ret (False, False), stdin_read_r = Ret [],
     write_r = Ret (), read_r = Ret [], print_r = Ret ()\<rparr>"

definition calm_pty :: pty_env where
  "calm_pty = \<lparr>openpty_r = Ret (), popen_r = Ret (), close_slave_r = Ret (),
     tcgetattr_r = Ret (), setraw_r = Ret (),
     ticks = [idle_tick\<lparr>select_r := Ret (False, True), read_r := Ret ''> ''\<rparr>,
              idle_tick\<lparr>poll_r := Ret (Some 0)\<rparr>],
     wait_r = Some (Ret 0),
     drains = [\<lparr>dselect_r = Ret False, dread_r = Ret [], dprint_r = Ret ()\<rparr>],
     getpgid_term_r = Ret (), killpg_term_r = Ret (), wait2_r = Ret (),
     getpgid_kill_r = Ret (), killpg_kill_r = Ret (), tcsetattr_r = Ret ()\<rparr>"

definition demo_env :: env where
  "demo_env = \<lparr>home_r = ''/home/u'',
     expanduser_r = (\<lambda>p. p),
     chdir_r = (\<lambda>st p. if p = ''node_modules'' then Ret (cwd st @ ''/node_modules'')
                        else Raise (OSError (''[Errno 2] No such file or directory: '' @ p))),
     is_exec_file = (\<lambda>st p. False),
     shell_r = (\<lambda>st c d. if c = ''false'' then Exits 1 (Ret []) (Ret [])
                          else Exits 0 (Ret []) (Ret [])),
     pty_r = (\<lambda>st c. calm_pty),
     make_raw = (\<lambda>a. Termios 0 0 0 0 0 0 [1, 0]),
     confirm_r = (\<lambda>st. True),
     handle_command_error = (\<lambda>c rc out err st. Some (Ret (), st))\<rparr>"

definition overlap_agent :: AIAgent where
  "overlap_agent = \<lparr>safety_rules =
     [mk_rule [Bol, Lit ''ls''] False ''Listing disabled'' False,
      mk_rule [Bol, Lit ''ls'', One Space] True ''Safe file listing'' True]\<rparr>"

definition sigint_pty :: pty_env where
  "sigint_pty = calm_pty\<lparr>ticks :=
     [idle_tick\<lparr>sigint_r := True\<rparr>, idle_tick\<lparr>poll_r := Ret (Some 0)\<rparr>]\<rparr>"

definition ctrl_c_pty :: pty_env where
  "ctrl_c_pty = calm_pty\<lparr>ticks :=
     [idle_tick\<lparr>select_r := Ret (True, False), stdin_read_r := Ret [CHR 0x03]\<rparr>,
      idle_tick\<lparr>poll_r := Ret (Some (- 2))\<rparr>]\<rparr>"

definition interrupted_pty :: pty_env where
  "interrupted_pty = calm_pty\<lparr>ticks := [idle_tick\<lparr>select_r := Raise KeyboardInterrupt\<rparr>],
     wait2_r := Raise (Error ''timed out after 2 seconds'')\<rparr>"

definition broken_pty :: pty_env where
  "broken_pty = calm_pty\<lparr>ticks := [idle_tick\<lparr>select_r := Raise (OSError ''[Errno 9] Bad file descriptor'')\<rparr>]\<rparr>"

definition env_with :: "pty_env \<Rightarrow> env" where
  "env_with p = demo_env\<lparr>pty_r := (\<lambda>st c. p)\<rparr>"

section \<open>Properties of the classifier\<close>

lemmas string_ev = strip_def lstrip_def rstrip_def lower_def lower_char_def isupper_def
  isspace_def isdigit_def startswith_def endswith_def

lemmas rules_ev = AIAgent_init_def init_safety_rules_def safe_rules_def restricted_rules_def
  mk_rule_def safe_patterns_def re_match_def

lemma nospace_append: "nospace (a @ b) = nospace a @ nospace b"
  by (simp add: nospace_def)

lemma nospace_Cons: "nospace (x # xs) = (if isspace x then nospace xs else x # nospace xs)"
  by (simp add: nospace_def)

lemma matches_at_sig: "matches_at p b s \<Longrightarrow> prefix (rx_sig p) (nospace s)"
proof (induction p b s rule: matches_at.induct)
  case (4 l p b s)
  then have m: "prefix l s" "prefix (rx_sig p) (nospace (drop (length l) s))" by auto
  from m(1) have "s = l @ drop (length l) s" by (auto simp: prefix_def)
  then have "nospace s = nospace l @ nospace (drop (length l) s)"
    by (metis nospace_append)
  with m(2) show ?case by simp
next
  case (6 c p b x xs)
  then show ?case by (cases c) (auto simp: nospace_Cons)
next
  case (7 c p b)
  then show ?case by (cases c) auto
next
  case (8 c p b x xs)
  then show ?case by (cases c) (auto simp: nospace_Cons)
next
  case (10 c p b x xs)
  then show ?case by (cases c) (auto simp: nospace_Cons)
qed auto

lemma re_match_sig: "re_match p s \<Longrightarrow> prefix (rx_sig p) (nospace s)"
  unfolding re_match_def by (rule matches_at_sig)

lemma incomparable_never_both:
  "incomparable (rx_sig p) (rx_sig q) \<Longrightarrow> re_match p c \<Longrightarrow> re_match q c \<Longrightarrow> False"
  using re_match_sig [of p c] re_match_sig [of q c] prefix_same_cases
  unfolding incomparable_def by blast

lemma sigs_of_table: "map (\<lambda>r. rx_sig (pattern r)) init_safety_rules = production_sigs"
  by (simp add: init_safety_rules_def safe_rules_def restricted_rules_def mk_rule_def
      production_sigs_def nospace_def isspace_def)

lemma sigs_checked: "sorted_wrt incomparable production_sigs"
  by (simp add: production_sigs_def incomparable_def)

lemma table_checked:
  "sorted_wrt (\<lambda>a d. incomparable (rx_sig (pattern a)) (rx_sig (pattern d))) init_safety_rules"
  using sigs_checked unfolding sigs_of_table [symmetric] by (simp add: sorted_wrt_map)

lemma check_rules_append:
  "check_rules (xs @ ys) c =
     (case check_rules xs c of Some r \<Rightarrow> Some r | None \<Rightarrow> check_rules ys c)"
  by (induction xs) auto

lemma check_rules_None:
  "check_rules rs c = None \<longleftrightarrow> (\<forall>r \<in> set rs. \<not> re_match (pattern r) c)"
  by (induction rs) auto

lemma check_rules_Some:
  "r \<in> set rs \<Longrightarrow> re_match (pattern r) c \<Longrightarrow>
   \<exists>r' \<in> set rs. re_match (pattern r') c \<and> check_rules rs c = Some (rule_result r')"
  by (induction rs) auto

lemma check_safe_patterns_None:
  "check_safe_patterns ps c = None \<longleftrightarrow> (\<forall>p \<in> set ps. \<not> re_match p c)"
  by (induction ps) auto

text \<open>No command matches an information-gathering rule and a restricted rule.\<close>

lemma restricted_not_safe:
  assumes "d \<in> set restricted_rules" "re_match (pattern d) c" "a \<in> set safe_rules"
  shows "\<not> re_match (pattern a) c"
proof -
  have "incomparable (rx_sig (pattern a)) (rx_sig (pattern d))"
    using table_checked assms(1,3) by (simp add: init_safety_rules_def sorted_wrt_append)
  then show ?thesis using incomparable_never_both assms(2) by blast
qed


lemma check_rules_first:
  "k < length rs \<Longrightarrow> re_match (pattern (rs ! k)) c \<Longrightarrow>
   \<forall>m<k. \<not> re_match (pattern (rs ! m)) c \<Longrightarrow>
   check_rules rs c = Some (rule_result (rs ! k))"
proof (induction rs arbitrary: k)
  case Nil
  then show ?case by simp
next
  case (Cons r rs)
  show ?case
  proof (cases k)
    case 0
    with Cons.prems show ?thesis by simp
  next
    case (Suc n)
    from Cons.prems(3) Suc have "\<not> re_match (pattern r) c" by force
    moreover have "check_rules rs c = Some (rule_result (rs ! n))"
    proof (rule Cons.IH)
      show "n < length rs" using Cons.prems(1) Suc by simp
      show "re_match (pattern (rs ! n)) c" using Cons.prems(2) Suc by simp
      show "\<forall>m<n. \<not> re_match (pattern (rs ! m)) c"
      proof (intro allI impI)
        fix m assume "m < n"
        then have "Suc m < k" using Suc by simp
        with Cons.prems(3) have "\<not> re_match (pattern ((r # rs) ! Suc m)) c" by blast
        then show "\<not> re_match (pattern (rs ! m)) c" by simp
      qed
    qed
    ultimately show ?thesis using Suc by simp
  qed
qed

lemma first_index:
  fixes P :: "nat \<Rightarrow> bool"
  assumes "P i"
  shows "\<exists>k\<le>i. P k \<and> (\<forall>m<k. \<not> P m)"
proof -
  let ?k = "LEAST k. P k"
  have "P ?k" using assms by (rule LeastI)
  moreover have "?k \<le> i" using assms by (rule Least_le)
  moreover have "\<forall>m<?k. \<not> P m" using not_less_Least by blast
  ultimately show ?thesis by blast
qed

lemma classify_first:
  assumes "k < length (safety_rules self)" "rule_matches self command k"
      "\<forall>m<k. \<not> rule_matches self command m"
  shows "check_command_safety self command = rule_result (safety_rules self ! k)"
  using check_rules_first [OF assms] by (simp add: check_command_safety_def)

lemma safe_flags: "\<forall>a \<in> set safe_rules. allowed a \<and> auto_execute a"
  by (simp add: safe_rules_def mk_rule_def)

lemma restricted_flags: "\<forall>d \<in> set restricted_rules. \<not> allowed d \<and> \<not> auto_execute d"
  by (simp add: restricted_rules_def mk_rule_def)

lemma auto_rule_auto_executes:
  assumes "rule \<in> set (safety_rules AIAgent_init)" "allowed rule" "auto_execute rule"
      "re_match (pattern rule) (strip (lower command))"
  shows "fst (snd (check_command_safety AIAgent_init command))"
proof -
  let ?c = "strip (lower command)"
  have "rule \<in> set safe_rules"
    using assms(1-3) restricted_flags by (auto simp: AIAgent_init_def init_safety_rules_def)
  from check_rules_Some [OF this assms(4)]
  obtain r' where r': "r' \<in> set safe_rules" "check_rules safe_rules ?c = Some (rule_result r')"
    by blast
  then have "check_rules (safety_rules AIAgent_init) ?c = Some (rule_result r')"
    by (simp add: AIAgent_init_def init_safety_rules_def check_rules_append)
  moreover have "allowed r' \<and> auto_execute r'" using safe_flags r'(1) by blast
  ultimately show ?thesis by (simp add: check_command_safety_def rule_result_def)
qed

text \<open>In the table of \<open>_init_safety_rules\<close> no command matches two rules.\<close>

lemma production_rules_disjoint:
  assumes "i < j" "j < length (safety_rules AIAgent_init)"
  shows "\<not> (rule_matches AIAgent_init command i \<and> rule_matches AIAgent_init command j)"
proof -
  have "incomparable (rx_sig (pattern (init_safety_rules ! i)))
      (rx_sig (pattern (init_safety_rules ! j)))"
    using table_checked assms by (simp add: sorted_wrt_iff_nth_less AIAgent_init_def)
  then show ?thesis using incomparable_never_both by (auto simp: AIAgent_init_def)
qed

text \<open>
  C7. The classifier matches on the command lowered and stripped, and the first rule of
  the table that matches decides. For any rule table: when two rules \<open>i < j\<close> both match,
  the result is that of the first matching rule, which is declared no later than \<open>i\<close>,
  and it is rule \<open>i\<close>'s result when no rule declared before \<open>i\<close> matches. In the table of
  \<open>_init_safety_rules\<close> a match of an allow-and-auto-run rule gives \<open>auto_execute = True\<close>,
  and \<open>ls -la\<close> is classified \<open>(True, True, "Safe file listing")\<close>, with or without
  upper case and surrounding blanks.
\<close>

theorem first_matching_rule_wins:
  "(\<forall>i j. i < j \<and> j < length (safety_rules self) \<and>
          rule_matches self command i \<and> rule_matches self command j \<longrightarrow>
      (\<exists>k\<le>i. rule_matches self command k \<and> (\<forall>m<k. \<not> rule_matches self command m) \<and>
          check_command_safety self command = rule_result (safety_rules self ! k)) \<and>
      ((\<forall>m<i. \<not> rule_matches self command m) \<longrightarrow>
          check_command_safety self command = rule_result (safety_rules self ! i)))
   \<and> (\<forall>rule \<in> set (safety_rules AIAgent_init).
        allowed rule \<and> auto_execute rule \<and> re_match (pattern rule) (strip (lower command)) \<longrightarrow>
        fst (snd (check_command_safety AIAgent_init command)))
   \<and> check_command_safety AIAgent_init ''ls -la'' = (True, True, ''Safe file listing'')
   \<and> check_command_safety AIAgent_init ''  LS -la '' = (True, True, ''Safe file listing'')"
proof (intro conjI allI impI ballI)
  fix i j
  assume a: "i < j \<and> j < length (safety_rules self) \<and>
          rule_matches self command i \<and> rule_matches self command j"
  then have i: "i < length (safety_rules self)" "rule_matches self command i" by auto
  from first_index [of "rule_matches self command" i, OF i(2)]
  obtain k where k: "k \<le> i" "rule_matches self command k" "\<forall>m<k. \<not> rule_matches self command m"
    by blast
  then have "check_command_safety self command = rule_result (safety_rules self ! k)"
    using i(1) by (intro classify_first) auto
  with k show "\<exists>k\<le>i. rule_matches self command k \<and> (\<forall>m<k. \<not> rule_matches self command m) \<and>
          check_command_safety self command = rule_result (safety_rules self ! k)"
    by blast
  assume "\<forall>m<i. \<not> rule_matches self command m"
  with i show "check_command_safety self command = rule_result (safety_rules self ! i)"
    by (intro classify_first) auto
next
  fix rule
  assume "rule \<in> set (safety_rules AIAgent_init)"
    "allowed rule \<and> auto_execute rule \<and> re_match (pattern rule) (strip (lower command))"
  then show "fst (snd (check_command_safety AIAgent_init command))"
    using auto_rule_auto_executes by blast
next
  show "check_command_safety AIAgent_init ''ls -la'' = (True, True, ''Safe file listing'')"
    by (simp add: check_command_safety_def rules_ev string_ev rule_result_def)
next
  show "check_command_safety AIAgent_init ''  LS -la '' = (True, True, ''Safe file listing'')"
    by (simp add: check_command_safety_def rules_ev string_ev rule_result_def)
qed

theorem first_matching_rule_wins_witness:
  "rule_matches overlap_agent ''ls -la'' 0 \<and> rule_matches overlap_agent ''ls -la'' 1
   \<and> check_command_safety overlap_agent ''ls -la'' = (False, False, ''Listing disabled'')
   \<and> hd (safety_rules AIAgent_init) \<in> set (safety_rules AIAgent_init)
   \<and> re_match (pattern (hd (safety_rules AIAgent_init))) (strip (lower ''ls /tmp''))
   \<and> fst (snd (check_command_safety AIAgent_init ''ls /tmp''))"
proof -
  have n: "strip (lower ''ls -la'') = ''ls -la''" "strip (lower ''ls /tmp'') = ''ls /tmp''"
    by (simp_all add: string_ev)
  have m: "rule_matches overlap_agent ''ls -la'' 0" "rule_matches overlap_agent ''ls -la'' 1"
    unfolding n by (simp_all add: overlap_agent_def mk_rule_def re_match_def string_ev)
  have l: "(0::nat) < 1 \<and> 1 < length (safety_rules overlap_agent)"
    by (simp add: overlap_agent_def)
  have r: "rule_result (safety_rules overlap_agent ! 0) = (False, False, ''Listing disabled'')"
    by (simp add: overlap_agent_def mk_rule_def rule_result_def)
  have h: "hd (safety_rules AIAgent_init) \<in> set (safety_rules AIAgent_init)"
     "allowed (hd (safety_rules AIAgent_init))" "auto_execute (hd (safety_rules AIAgent_init))"
    by (simp_all add: rules_ev)
  have hm: "re_match (pattern (hd (safety_rules AIAgent_init))) (strip (lower ''ls /tmp''))"
    unfolding n by (simp add: rules_ev string_ev)
  note t = first_matching_rule_wins
  from t [of overlap_agent "''ls -la''"] m l r
  have "check_command_safety overlap_agent ''ls -la'' = (False, False, ''Listing disabled'')"
    by (metis less_nat_zero_code)
  moreover from t [of AIAgent_init "''ls /tmp''"] h hm
  have "fst (snd (check_command_safety AIAgent_init ''ls /tmp''))" by blast
  ultimately show ?thesis using m h hm by blast
qed


text \<open>
  C8. A command that matches no rule of the safety table and none of the secondary
  patterns is classified allowed, not auto-executable, with the reason
  "Requires user confirmation": it is neither blocked nor run automatically.
\<close>

theorem unrecognized_requires_confirmation:
  assumes "\<forall>rule \<in> set (safety_rules self). \<not> re_match (pattern rule) (strip (lower command))"
      and "\<forall>p \<in> set safe_patterns. \<not> re_match p (strip (lower command))"
  shows "check_command_safety self command = (True, False, ''Requires user confirmation'')"
proof -
  have "check_rules (safety_rules self) (strip (lower command)) = None"
    using assms(1) by (simp add: check_rules_None)
  moreover have "check_safe_patterns safe_patterns (strip (lower command)) = None"
    using assms(2) by (simp add: check_safe_patterns_None)
  ultimately show ?thesis by (simp add: check_command_safety_def)
qed

theorem unrecognized_requires_confirmation_witness:
  "list_all (\<lambda>rule. \<not> re_match (pattern rule) (strip (lower ''make all'')))
     (safety_rules AIAgent_init)
   \<and> list_all (\<lambda>p. \<not> re_match p (strip (lower ''make all''))) safe_patterns
   \<and> check_command_safety AIAgent_init ''make all'' =
       (True, False, ''Requires user confirmation'')"
proof -
  have n: "strip (lower ''make all'') = ''make all''" by (simp add: string_ev)
  have a: "\<forall>rule \<in> set (safety_rules AIAgent_init).
      \<not> re_match (pattern rule) (strip (lower ''make all''))"
    unfolding n by (simp add: rules_ev)
  have b: "\<forall>p \<in> set safe_patterns. \<not> re_match p (strip (lower ''make all''))"
    unfolding n by (simp add: rules_ev)
  from a b unrecognized_requires_confirmation [OF a b] show ?thesis
    by (simp add: list_all_iff)
qed

section \<open>Properties of the agent's automatic execution\<close>

text \<open>
  A command whose normalised form matches a restricted rule at position 0 is classified
  \<open>allowed = False\<close>, \<open>auto_execute = False\<close>, and \<open>auto_execute_safe_command\<close> returns
  exit code 1 with the message "Command blocked for safety: ..." and leaves the state
  as it was.
\<close>

lemma deny_rule_at_start_blocks:
  assumes "rule \<in> set restricted_rules"
      and "re_match (pattern rule) (strip (lower command))"
  shows "\<exists>why. check_command_safety AIAgent_init command = (False, False, why) \<and>
           auto_execute_safe_command AIAgent_init e command st =
             Some (Ret (1, [], ''Command blocked for safety: '' @ why), st)"
proof -
  let ?c = "strip (lower command)"
  have "\<forall>a \<in> set safe_rules. \<not> re_match (pattern a) ?c"
    using restricted_not_safe [OF assms] by blast
  then have "check_rules safe_rules ?c = None" by (simp add: check_rules_None)
  moreover obtain r' where r': "r' \<in> set restricted_rules"
      "check_rules restricted_rules ?c = Some (rule_result r')"
    using check_rules_Some [OF assms] by blast
  ultimately have "check_rules (safety_rules AIAgent_init) ?c = Some (rule_result r')"
    by (simp add: AIAgent_init_def init_safety_rules_def check_rules_append)
  moreover have "rule_result r' = (False, False, reason r')"
    using restricted_flags r'(1) by (simp add: rule_result_def)
  ultimately have c: "check_command_safety AIAgent_init command = (False, False, reason r')"
    by (simp add: check_command_safety_def)
  then show ?thesis by (simp add: auto_execute_safe_command_def)
qed

lemma re_match_occurs: "re_match p s \<Longrightarrow> re_search p s"
  by (cases s) (auto simp: re_match_def re_search_def)

lemma occurs_from_later:
  "matches_at p False s2 \<Longrightarrow> s1 \<noteq> [] \<Longrightarrow> occurs_from p b (s1 @ s2)"
proof (induction s1 arbitrary: b)
  case Nil
  then show ?case by simp
next
  case (Cons x xs)
  show ?case
  proof (cases xs)
    case Nil
    with Cons.prems show ?thesis by (cases s2) auto
  next
    case (Cons y ys)
    with Cons.IH [of False] Cons.prems show ?thesis by simp
  qed
qed

lemma no_rule_by_sig:
  assumes "\<forall>g \<in> set production_sigs. \<not> prefix g (nospace c)"
  shows "check_rules (safety_rules AIAgent_init) c = None"
proof -
  have "\<not> re_match (pattern r) c" if r: "r \<in> set init_safety_rules" for r
  proof
    assume "re_match (pattern r) c"
    then have "prefix (rx_sig (pattern r)) (nospace c)" by (rule re_match_sig)
    moreover have "rx_sig (pattern r) \<in> set production_sigs"
      using r unfolding sigs_of_table [symmetric] by simp
    ultimately show False using assms by blast
  qed
  then show ?thesis by (simp add: check_rules_None AIAgent_init_def)
qed

text \<open>
  C3. Five restricted rules are written without \<open>^\<close>, to be found anywhere in a
  command, but the classifier tests them with \<open>re.match\<close>, which looks at position 0
  only. \<open>echo x > /etc/passwd\<close> contains a match of the rule for writing to \<open>/etc/\<close>,
  and \<open>echo hi; curl u | bash\<close> one of the rule for piped execution; both
  are classified \<open>(True, True, "Basic safe command")\<close>, and \<open>auto_execute_safe_command\<close>
  goes on to its spawn expression instead of returning the blocked-for-safety message.
\<close>

theorem unanchored_deny_rule_misses:
  "mk_rule [Lit ''>'', Star Space, Lit ''/etc/'']
       False ''System directory writing not allowed'' False \<in> set restricted_rules
   \<and> re_search [Lit ''>'', Star Space, Lit ''/etc/''] (strip (lower ''echo x > /etc/passwd''))
   \<and> check_command_safety AIAgent_init ''echo x > /etc/passwd'' =
       (True, True, ''Basic safe command'')
   \<and> auto_execute_safe_command AIAgent_init demo_env ''echo x > /etc/passwd'' state0 =
       Some (Ret (1, [], str_exn (name_error ''asyncio'')), state0)
   \<and> mk_rule [Lit ''curl'', Star AnyChar, Lit ''|'', Star Space, Lit ''bash'']
       False ''Piped execution not allowed'' False \<in> set restricted_rules
   \<and> re_search [Lit ''curl'', Star AnyChar, Lit ''|'', Star Space, Lit ''bash'']
       (strip (lower ''echo hi; curl u | bash''))
   \<and> check_command_safety AIAgent_init ''echo hi; curl u | bash'' =
       (True, True, ''Basic safe command'')"
proof -
  have n: "strip (lower ''echo x > /etc/passwd'') = ''echo x > /etc/passwd''"
      "strip (lower ''echo hi; curl u | bash'') = ''echo hi; curl u | bash''"
    by (simp_all add: string_ev)
  have m: "mk_rule [Lit ''>'', Star Space, Lit ''/etc/'']
       False ''System directory writing not allowed'' False \<in> set restricted_rules"
      "mk_rule [Lit ''curl'', Star AnyChar, Lit ''|'', Star Space, Lit ''bash'']
       False ''Piped execution not allowed'' False \<in> set restricted_rules"
    by (simp_all add: restricted_rules_def)
  have "matches_at [Lit ''>'', Star Space, Lit ''/etc/''] False ''> /etc/passwd''"
    by (simp add: isspace_def)
  from occurs_from_later [OF this, of "''echo x ''" True]
  have s1: "re_search [Lit ''>'', Star Space, Lit ''/etc/'']
      (strip (lower ''echo x > /etc/passwd''))"
    unfolding n by (simp add: re_search_def)
  have "matches_at [Lit ''curl'', Star AnyChar, Lit ''|'', Star Space, Lit ''bash''] False
      ''curl u | bash''"
    by (simp add: isspace_def)
  from occurs_from_later [OF this, of "''echo hi; ''" True]
  have s2: "re_search [Lit ''curl'', Star AnyChar, Lit ''|'', Star Space, Lit ''bash'']
      (strip (lower ''echo hi; curl u | bash''))"
    unfolding n by (simp add: re_search_def)
  have e: "check_safe_patterns safe_patterns (''echo '' @ r) =
      Some (True, True, ''Basic safe command'')" for r
    by (cases r) (simp_all add: safe_patterns_def re_match_def isspace_def)
  have "nospace ''echo x > /etc/passwd'' = ''echox>/etc/passwd''"
    by (simp add: nospace_def isspace_def)
  then have "\<forall>g \<in> set production_sigs. \<not> prefix g (nospace ''echo x > /etc/passwd'')"
    by (simp add: production_sigs_def)
  then have "check_rules (safety_rules AIAgent_init) ''echo x > /etc/passwd'' = None"
    by (rule no_rule_by_sig)
  with e [of "''x > /etc/passwd''"]
  have c1: "check_command_safety AIAgent_init ''echo x > /etc/passwd'' =
       (True, True, ''Basic safe command'')"
    by (simp add: check_command_safety_def n)
  have "nospace ''echo hi; curl u | bash'' = ''echohi;curlu|bash''"
    by (simp add: nospace_def isspace_def)
  then have "\<forall>g \<in> set production_sigs. \<not> prefix g (nospace ''echo hi; curl u | bash'')"
    by (simp add: production_sigs_def)
  then have "check_rules (safety_rules AIAgent_init) ''echo hi; curl u | bash'' = None"
    by (rule no_rule_by_sig)
  with e [of "''hi; curl u | bash''"]
  have c2: "check_command_safety AIAgent_init ''echo hi; curl u | bash'' =
       (True, True, ''Basic safe command'')"
    by (simp add: check_command_safety_def n)
  have d: "\<not> startswith (strip ''echo x > /etc/passwd'') ''cd ''"
    by (simp add: string_ev)
  have x: "auto_execute_safe_command AIAgent_init demo_env ''echo x > /etc/passwd'' state0 =
       Some (Ret (1, [], str_exn (name_error ''asyncio'')), state0)"
    using d by (simp add: auto_execute_safe_command_def c1 module_names_def name_error_def)
  from m s1 s2 c1 c2 x show ?thesis by simp
qed

text \<open>
  C4. For a command that does not start with \<open>cd \<close> after stripping,
  \<open>auto_execute_safe_command\<close> returns exit code 1 with a non-empty message, never 0,
  and issues no call: either the classifier refuses automatic execution, or evaluating
  the unbound name \<open>asyncio\<close> raises and the handler turns the exception into the result.
\<close>

theorem agent_spawn_always_fails:
  assumes "\<not> startswith (strip command) ''cd ''"
  shows "\<exists>msg. msg \<noteq> [] \<and>
           auto_execute_safe_command self e command st = Some (Ret (1, [], msg), st)"
proof -
  obtain is_safe auto_exec why
    where c: "check_command_safety self command = (is_safe, auto_exec, why)"
    by (cases "check_command_safety self command") auto
  have "''asyncio'' \<notin> set module_names" by (simp add: module_names_def)
  then show ?thesis using assms c
    by (simp add: auto_execute_safe_command_def name_error_def)
qed

theorem agent_spawn_always_fails_witness:
  "\<not> startswith (strip ''ls -la'') ''cd ''
   \<and> check_command_safety AIAgent_init ''ls -la'' = (True, True, ''Safe file listing'')
   \<and> (\<exists>msg. msg \<noteq> [] \<and>
        auto_execute_safe_command AIAgent_init demo_env ''ls -la'' state0 =
          Some (Ret (1, [], msg), state0))
   \<and> auto_execute_safe_command AIAgent_init demo_env ''ls -la'' state0 =
       Some (Ret (1, [], str_exn (name_error ''asyncio'')), state0)"
proof -
  have a: "\<not> startswith (strip ''ls -la'') ''cd ''" by (simp add: string_ev)
  have c: "check_command_safety AIAgent_init ''ls -la'' = (True, True, ''Safe file listing'')"
    by (simp add: check_command_safety_def rules_ev string_ev rule_result_def)
  have d: "auto_execute_safe_command AIAgent_init demo_env ''ls -la'' state0 =
       Some (Ret (1, [], str_exn (name_error ''asyncio'')), state0)"
    using a by (simp add: auto_execute_safe_command_def c module_names_def name_error_def)
  from agent_spawn_always_fails [OF a, of AIAgent_init demo_env state0] a c d
  show ?thesis by blast
qed

section \<open>Properties of the dispatcher\<close>

lemma rstrip_last: "rstrip s \<noteq> [] \<Longrightarrow> \<not> isspace (last (rstrip s))"
proof -
  assume a: "rstrip s \<noteq> []"
  then have "dropWhile isspace (rev s) \<noteq> []" by (simp add: rstrip_def)
  then have "\<not> isspace (hd (dropWhile isspace (rev s)))" by (rule hd_dropWhile)
  moreover have "last (rstrip s) = hd (dropWhile isspace (rev s))"
    using a by (simp add: rstrip_def last_rev)
  ultimately show ?thesis by simp
qed

lemma strip_last: "strip s \<noteq> [] \<Longrightarrow> \<not> isspace (last (strip s))"
  unfolding strip_def by (rule rstrip_last)

lemma rstrip_id: "s \<noteq> [] \<Longrightarrow> \<not> isspace (last s) \<Longrightarrow> rstrip s = s"
proof -
  assume a: "s \<noteq> []" "\<not> isspace (last s)"
  then have "\<not> isspace (hd (rev s))" by (simp add: hd_rev)
  moreover have "rev s \<noteq> []" using a by simp
  ultimately have "dropWhile isspace (rev s) = rev s" by (cases "rev s") auto
  then show ?thesis by (simp add: rstrip_def)
qed

lemma lstrip_nonempty: "s \<noteq> [] \<Longrightarrow> \<not> isspace (last s) \<Longrightarrow> lstrip s \<noteq> [] \<and> last (lstrip s) = last s"
proof -
  assume a: "s \<noteq> []" "\<not> isspace (last s)"
  have s: "s = takeWhile isspace s @ dropWhile isspace s" by simp
  have "dropWhile isspace s \<noteq> []"
  proof
    assume "dropWhile isspace s = []"
    then have "\<forall>x \<in> set s. isspace x" by simp
    with a show False using last_in_set by blast
  qed
  moreover from this have "last s = last (dropWhile isspace s)"
    by (metis s last_appendR)
  ultimately show ?thesis by (simp add: lstrip_def)
qed

lemma strip_nonempty: "s \<noteq> [] \<Longrightarrow> \<not> isspace (last s) \<Longrightarrow> strip s \<noteq> []"
  using lstrip_nonempty [of s] rstrip_id [of "lstrip s"] by (simp add: strip_def)

lemma cd_path_nonempty:
  assumes "startswith (strip command) ''cd ''"
  shows "strip (drop 3 (strip command)) \<noteq> []"
proof -
  from assms obtain r where r: "strip command = ''cd '' @ r"
    by (auto simp: startswith_def prefix_def)
  then have ne: "strip command \<noteq> []" by simp
  from strip_last [OF ne] have l: "\<not> isspace (last (''cd '' @ r))" by (simp add: r)
  have "r \<noteq> []"
  proof
    assume "r = []"
    with l show False by (simp add: isspace_def)
  qed
  moreover from this l have "\<not> isspace (last r)" by simp
  ultimately have "strip r \<noteq> []" by (rule strip_nonempty)
  then show ?thesis by (simp add: r)
qed

text \<open>A command with a slash has a first token.\<close>

lemma contains_mem: "contains s [c] \<Longrightarrow> c \<in> set s"
  by (induction s) (auto simp: prefix_def)

lemma strip_nonempty_mem:
  assumes "x \<in> set s" "\<not> isspace x"
  shows "strip s \<noteq> []"
proof -
  have "lstrip s \<noteq> []" using assms by (auto simp: lstrip_def)
  then have "\<not> isspace (hd (lstrip s))" unfolding lstrip_def by (rule hd_dropWhile)
  moreover have "hd (lstrip s) \<in> set (rev (lstrip s))" using \<open>lstrip s \<noteq> []\<close> by simp
  ultimately have "dropWhile isspace (rev (lstrip s)) \<noteq> []" by auto
  then show ?thesis by (simp add: strip_def rstrip_def)
qed

lemma slash_has_token:
  assumes "contains cmd ''/''"
  shows "first_token (strip cmd) \<noteq> None"
proof -
  have s: "\<not> isspace CHR ''/''" by (simp add: isspace_def)
  from assms have "CHR ''/'' \<in> set cmd" by (rule contains_mem)
  then have ne: "strip cmd \<noteq> []" using s by (rule strip_nonempty_mem)
  then have "\<not> isspace (last (strip cmd))" by (rule strip_last)
  moreover have "last (strip cmd) \<in> set (strip cmd)" using ne by simp
  ultimately have "lstrip (strip cmd) \<noteq> []" by (auto simp: lstrip_def)
  then show ?thesis by (simp add: first_token_def Let_def)
qed

lemma except_Exception_idem: "except_Exception (except_Exception x) = except_Exception x"
  by (induction x rule: except_Exception.induct) auto

lemma execute_interactive_guarded:
  "except_Exception (execute_interactive_command e command st) =
   execute_interactive_command e command st"
  by (simp add: execute_interactive_command_def Let_def except_Exception_idem)

lemma cd_target_arg:
  "startswith (strip command) ''cd '' \<Longrightarrow>
   cd_target e command = expanduser_r e (strip (drop 3 (strip command)))"
  using cd_path_nonempty [of command] by (simp add: cd_target_def Let_def)

text \<open>
  C5. A directory change whose \<open>os.chdir\<close> raises \<open>OSError\<close> (the target does not
  exist or cannot be entered) returns exit code 1 with the text of the error in the
  error field, and leaves the working directory of the process and \<open>current_dir\<close> as
  they were.
\<close>

theorem cd_failure_keeps_directory:
  assumes "startswith (strip command) ''cd ''"
      and "chdir_r e st (cd_target e command) = Raise (OSError m)"
  shows "\<exists>st'. execute_command e command st = Some (Ret (1, [], m), st')
           \<and> cwd st' = cwd st \<and> current_dir st' = current_dir st"
  using assms by (simp add: execute_command_def Let_def log_def)

theorem cd_failure_keeps_directory_witness:
  "startswith (strip ''cd /nonexistent'') ''cd ''
   \<and> chdir_r demo_env state0 (cd_target demo_env ''cd /nonexistent'') =
       Raise (OSError ''[Errno 2] No such file or directory: /nonexistent'')
   \<and> (\<exists>st'. execute_command demo_env ''cd /nonexistent'' state0 =
          Some (Ret (1, [], ''[Errno 2] No such file or directory: /nonexistent''), st')
        \<and> cwd st' = cwd state0 \<and> current_dir st' = current_dir state0)"
proof -
  have a: "startswith (strip ''cd /nonexistent'') ''cd ''" by (simp add: string_ev)
  have t: "cd_target demo_env ''cd /nonexistent'' = ''/nonexistent''"
    by (simp add: cd_target_def string_ev demo_env_def)
  have b: "chdir_r demo_env state0 (cd_target demo_env ''cd /nonexistent'') =
       Raise (OSError ''[Errno 2] No such file or directory: /nonexistent'')"
    unfolding t by (simp add: demo_env_def)
  from cd_failure_keeps_directory [OF a b] a b show ?thesis by blast
qed

text \<open>With an argument, a directory change that succeeds updates both directories.\<close>

lemma cd_success_updates_directory:
  assumes "startswith (strip command) ''cd ''"
      and "chdir_r e st (cd_target e command) = Ret d"
  shows "execute_command e command st =
           Some (Ret (0, ''Changed directory to '' @ d, []),
                 (log (Chdir (cd_target e command)) st)\<lparr>cwd := d, current_dir := d\<rparr>)"
  using assms by (simp add: execute_command_def Let_def)

lemma bare_cd_not_interactive: "\<not> is_interactive_command e st ''cd''"
  by (simp add: is_interactive_command_def string_ev suffix_to_prefix first_token_def)

text \<open>
  C6. The bare command \<open>cd\<close> does not reach the directory-change branch: after
  stripping it does not start with \<open>cd \<close>, so it is handed to the system shell as a
  child process, and \<open>current_dir\<close> stays what it was instead of becoming the home
  directory. (By \<open>cd_path_nonempty\<close> the home default inside the branch is never used.)
\<close>

theorem bare_cd_goes_to_shell:
  "execute_command e ''cd'' st = except_Exception (run_shell e ''cd'' (current_dir st) st)
   \<and> execute_command demo_env ''cd'' state0 =
       Some (Ret (0, [], []), log (Shell ''cd'' ''/srv/app'') state0)
   \<and> current_dir (log (Shell ''cd'' ''/srv/app'') state0) = ''/srv/app''
   \<and> home_r demo_env = ''/home/u''"
proof -
  have a: "\<not> startswith (strip ''cd'') ''cd ''" by (simp add: string_ev)
  have b: "execute_command e ''cd'' st = except_Exception (run_shell e ''cd'' (current_dir st) st)"
    for e st
    using a bare_cd_not_interactive by (simp add: execute_command_def)
  show ?thesis
    by (simp add: b run_shell_def demo_env_def state0_def log_def)
qed


section \<open>Properties of the PTY session\<close>

lemma quiet_refl: "quiet st st"
  by (simp add: quiet_def)

lemma quiet_trans: "quiet a b \<Longrightarrow> quiet b c \<Longrightarrow> quiet a c"
  by (simp add: quiet_def)

lemma quiet_log: "\<not> is_restore ev \<Longrightarrow> quiet st (log ev st)"
  by (simp add: quiet_def log_def)

lemma quiet_log2: "\<not> is_restore ev \<Longrightarrow> quiet a b \<Longrightarrow> quiet a (log ev b)"
  by (simp add: quiet_def log_def)

lemma stdin_step_quiet: "stdin_step t st = (b, st1) \<Longrightarrow> quiet st st1"
  by (auto simp: stdin_step_def quiet_refl quiet_log split: res.splits if_splits)

lemma master_step_quiet: "master_step t buf st = (b, buf1, st1) \<Longrightarrow> quiet st st1"
  by (auto simp: master_step_def quiet_refl quiet_log split: res.splits if_splits)

lemma deliver_sigint_quiet: "quiet st (deliver_sigint t st)"
  by (simp add: deliver_sigint_def signal_handler_def quiet_def log_def)

lemma multiplex_quiet: "multiplex ts buf st = Some (r, buf', st') \<Longrightarrow> quiet st st'"
proof (induction ts arbitrary: buf st)
  case Nil
  then show ?case by simp
next
  case (Cons t ts)
  show ?case
  proof (cases "poll_r t")
    case (Raise x)
    with Cons.prems show ?thesis by (simp add: quiet_refl)
  next
    case (Ret polled)
    show ?thesis
    proof (cases polled)
      case (Some rc)
      with Ret Cons.prems show ?thesis by (simp add: quiet_refl)
    next
      case None
      let ?s0 = "deliver_sigint t st"
      have q0: "quiet st ?s0" by (rule deliver_sigint_quiet)
      show ?thesis
      proof (cases "select_r t")
        case (Raise x)
        with Ret None Cons.prems q0 show ?thesis by auto
      next
        case r: (Ret ready)
        obtain stdin_ready master_ready where ready: "ready = (stdin_ready, master_ready)"
          by (cases ready)
        obtain b1 st1
          where s1: "(if stdin_ready then stdin_step t ?s0 else (False, ?s0)) = (b1, st1)"
          by (cases "if stdin_ready then stdin_step t ?s0 else (False, ?s0)")
        have "quiet ?s0 st1"
          using s1 by (auto simp: quiet_refl split: if_splits dest: stdin_step_quiet)
        with q0 have q1: "quiet st st1" by (rule quiet_trans)
        show ?thesis
        proof (cases b1)
          case True
          with Ret None r ready s1 Cons.prems q1 show ?thesis by simp
        next
          case False
          obtain b2 buf2 st2 where s2:
            "(if master_ready then master_step t buf st1 else (False, buf, st1)) = (b2, buf2, st2)"
            by (cases "if master_ready then master_step t buf st1 else (False, buf, st1)")
          have q2: "quiet st1 st2"
            using s2 by (auto simp: quiet_refl split: if_splits dest: master_step_quiet)
          show ?thesis
          proof (cases b2)
            case True
            with False Ret None r ready s1 s2 Cons.prems have "st' = st2" by simp
            with q1 q2 show ?thesis by (blast intro: quiet_trans)
          next
            case b2: False
            with False Ret None r ready s1 s2 Cons.prems
            have "multiplex ts buf2 st2 = Some (r, buf', st')" by simp
            then have "quiet st2 st'" by (rule Cons.IH)
            with q1 q2 show ?thesis by (blast intro: quiet_trans)
          qed
        qed
      qed
    qed
  qed
qed

lemma drain_quiet: "drain ds buf st = Some (buf', st') \<Longrightarrow> quiet st st'"
proof (induction ds arbitrary: buf st)
  case Nil
  then show ?case by simp
next
  case (Cons d ds)
  show ?case
  proof (cases "\<exists>data. dselect_r d = Ret True \<and> dread_r d = Ret data \<and> data \<noteq> [] \<and>
      dprint_r d = Ret ()")
    case True
    then obtain data where d: "dselect_r d = Ret True" "dread_r d = Ret data" "data \<noteq> []"
        "dprint_r d = Ret ()" by blast
    with Cons.prems have "drain ds (buf @ data) (log (Print data) st) = Some (buf', st')"
      by simp
    then have "quiet (log (Print data) st) st'" by (rule Cons.IH)
    then show ?thesis by (simp add: quiet_def log_def)
  next
    case False
    with Cons.prems show ?thesis
      by (auto simp: quiet_def log_def split: res.splits bool.splits if_splits)
  qed
qed

lemma session_try_quiet:
  assumes "session_try p st = Some (r, buf, st')"
  shows "quiet st st'"
proof -
  from assms obtain m buf1 st1 where m: "multiplex (ticks p) [] st = Some (m, buf1, st1)"
    by (auto simp: session_try_def split: option.splits)
  then have q1: "quiet st st1" by (rule multiplex_quiet)
  have "quiet st1 st'"
  proof (cases m)
    case (Raise x)
    with assms m show ?thesis by (simp add: session_try_def quiet_refl)
  next
    case (Ret polled)
    let ?w = "case polled of Some rc \<Rightarrow> Some (Ret rc) | None \<Rightarrow> wait_r p"
    show ?thesis
    proof (cases ?w)
      case None
      with assms m Ret show ?thesis by (simp add: session_try_def)
    next
      case (Some w)
      show ?thesis
      proof (cases w)
        case (Raise x)
        with assms m Ret Some have "st' = log (Wait None) st1" by (simp add: session_try_def)
        then show ?thesis by (simp add: quiet_log)
      next
        case r: (Ret returncode)
        with assms m Ret Some obtain buf2
          where "drain (drains p) buf1 (log (Wait None) st1) = Some (buf2, st')"
          by (auto simp: session_try_def split: option.splits)
        then have "quiet (log (Wait None) st1) st'" by (rule drain_quiet)
        then show ?thesis by (simp add: quiet_def log_def)
      qed
    qed
  qed
  with q1 show ?thesis by (rule quiet_trans)
qed

lemma force_kill_quiet: "quiet st (force_kill p st)"
  by (simp add: force_kill_def quiet_def log_def split: res.splits)

lemma on_interrupt_quiet: "quiet st (on_interrupt p st)"
  using force_kill_quiet [of "log (Killpg SIGTERM) st" p]
    force_kill_quiet [of "log (Wait (Some 2)) (log (Killpg SIGTERM) st)" p]
    force_kill_quiet [of st p]
  by (simp add: on_interrupt_def quiet_def log_def split: res.splits)

lemma enter_raw_old:
  "fst (enter_raw e p st) =
     (case tcgetattr_r p of Ret u \<Rightarrow> Some (tty_attrs st) | Raise x \<Rightarrow> None)"
  by (simp add: enter_raw_def split: res.splits)

lemma enter_raw_calls:
  "filter is_restore (calls (snd (enter_raw e p st))) = filter is_restore (calls st)"
  by (simp add: enter_raw_def log_def split: res.splits)

lemma enter_raw_skipped: "tcgetattr_r p = Raise x \<Longrightarrow> snd (enter_raw e p st) = st"
  by (simp add: enter_raw_def)

lemma restore_calls:
  "filter is_restore (calls (restore p old st)) =
     filter is_restore (calls st) @
       (case old of Some a \<Rightarrow> [TcSetAttr a] | None \<Rightarrow> []) @ [Close Master]"
  by (simp add: restore_def log_def split: option.splits res.splits)

lemma restore_last: "last (calls (restore p old st)) = Close Master"
  by (simp add: restore_def log_def)

lemma restore_attrs:
  "tty_attrs (restore p old st) =
     (case old of
        None \<Rightarrow> tty_attrs st
      | Some a \<Rightarrow> (case tcsetattr_r p of Ret u \<Rightarrow> a | Raise x \<Rightarrow> tty_attrs st))"
  by (simp add: restore_def log_def split: option.splits res.splits)

text \<open>Every way out of the session proper runs the \<open>finally\<close> block last, once.\<close>

lemma session_ends_restored:
  assumes "session e p st = Some (r, st')"
  shows "\<exists>st2. quiet (snd (enter_raw e p st)) st2 \<and>
           st' = restore p (fst (enter_raw e p st)) st2"
proof -
  obtain old st1 where er: "enter_raw e p st = (old, st1)" by (cases "enter_raw e p st")
  from assms er obtain t buf st2 where t: "session_try p st1 = Some (t, buf, st2)"
    by (auto simp: session_def split: option.splits)
  then have q: "quiet st1 st2" by (rule session_try_quiet)
  show ?thesis
  proof (cases "t = Raise KeyboardInterrupt")
    case True
    with assms er t have "st' = restore p old (on_interrupt p st2)" by (simp add: session_def)
    moreover have "quiet st1 (on_interrupt p st2)"
      using q on_interrupt_quiet by (rule quiet_trans)
    ultimately show ?thesis using er by auto
  next
    case False
    with assms er t have "st' = restore p old st2"
      by (cases t) (auto simp: session_def)
    with q er show ?thesis by auto
  qed
qed

text \<open>
  C1. Once the child runs on the PTY (the descriptor pair is open, the child spawned,
  the slave end closed), every way the session ends (the child completes, an exception
  leaves the loop or the final reads, the user interrupts) performs the restoration
  exactly once and last: among the calls the session adds, \<open>tcsetattr\<close> with the
  attributes captured at the start occurs once (not at all when they could not be
  captured), followed by the one close of the master descriptor; and when that
  \<open>tcsetattr\<close> succeeds the terminal has the attributes it had before the session.
\<close>

theorem restoration_exactly_once:
  assumes "openpty_r (pty_r e st command) = Ret ()"
      and "popen_r (pty_r e st command) = Ret ()"
      and "close_slave_r (pty_r e st command) = Ret ()"
      and "execute_interactive_command e command st = Some (r, st')"
  shows "filter is_restore (calls st') =
           filter is_restore (calls st) @
             (case tcgetattr_r (pty_r e st command) of
                Ret u \<Rightarrow> [TcSetAttr (tty_attrs st)]
              | Raise x \<Rightarrow> []) @ [Close Master]
         \<and> last (calls st') = Close Master
         \<and> (tcsetattr_r (pty_r e st command) = Ret () \<longrightarrow> tty_attrs st' = tty_attrs st)"
proof -
  let ?p = "pty_r e st command"
  let ?st0 = "log (Close Slave) (log (Popen command (current_dir st)) st)"
  from assms have "except_Exception (session e ?p ?st0) = Some (r, st')"
    by (simp add: execute_interactive_command_def Let_def)
  then obtain r0 where "session e ?p ?st0 = Some (r0, st')"
    by (cases "session e ?p ?st0" rule: except_Exception.cases) (auto split: if_splits)
  from session_ends_restored [OF this]
  obtain st2 where q: "quiet (snd (enter_raw e ?p ?st0)) st2"
      and st': "st' = restore ?p (fst (enter_raw e ?p ?st0)) st2" by blast
  have c0: "filter is_restore (calls ?st0) = filter is_restore (calls st)"
    by (simp add: log_def)
  have a0: "tty_attrs ?st0 = tty_attrs st" by (simp add: log_def)
  have c2: "filter is_restore (calls st2) = filter is_restore (calls st)"
    using q enter_raw_calls [of e ?p ?st0] c0 by (simp add: quiet_def)
  have old: "fst (enter_raw e ?p ?st0) =
      (case tcgetattr_r ?p of Ret u \<Rightarrow> Some (tty_attrs st) | Raise x \<Rightarrow> None)"
    by (simp add: enter_raw_old a0 split: res.splits)
  have "filter is_restore (calls st') =
           filter is_restore (calls st) @
             (case tcgetattr_r ?p of Ret u \<Rightarrow> [TcSetAttr (tty_attrs st)] | Raise x \<Rightarrow> []) @
             [Close Master]"
    unfolding st' restore_calls c2 old by (simp split: res.splits)
  moreover have "last (calls st') = Close Master" unfolding st' by (rule restore_last)
  moreover have "tty_attrs st' = tty_attrs st" if ok: "tcsetattr_r ?p = Ret ()"
  proof (cases "tcgetattr_r ?p")
    case (Ret u)
    then show ?thesis unfolding st' restore_attrs old by (simp add: ok)
  next
    case (Raise x)
    then have "snd (enter_raw e ?p ?st0) = ?st0" by (rule enter_raw_skipped)
    with q have "tty_attrs st2 = tty_attrs st" by (simp add: quiet_def a0)
    then show ?thesis unfolding st' restore_attrs old by (simp add: Raise)
  qed
  ultimately show ?thesis by blast
qed

lemmas pty_ev = execute_interactive_command_def session_def enter_raw_def session_try_def
  master_step_def stdin_step_def restore_def on_interrupt_def force_kill_def log_def
  deliver_sigint_def signal_handler_def

text \<open>Three sessions: the user interrupts, \<open>select\<close> fails, the child completes.\<close>

lemma interrupt_in_select_is_handled:
  "execute_interactive_command (env_with interrupted_pty) ''python3 -i'' state0 =
     Some (Ret (- 1, [], []),
       state0\<lparr>calls := [Popen ''python3 -i'' ''/srv/app'', Close Slave, SetRaw,
                        Killpg SIGTERM, Wait (Some 2), Killpg SIGKILL, Wait (Some 1),
                        TcSetAttr attrs0, Close Master]\<rparr>)"
  by (simp add: pty_ev env_with_def demo_env_def interrupted_pty_def calm_pty_def idle_tick_def
      state0_def)

lemma exception_in_select_is_reported:
  "execute_interactive_command (env_with broken_pty) ''python3 -i'' state0 =
     Some (Ret (1, [], ''[Errno 9] Bad file descriptor''),
       state0\<lparr>calls := [Popen ''python3 -i'' ''/srv/app'', Close Slave, SetRaw,
                        TcSetAttr attrs0, Close Master]\<rparr>)"
  by (simp add: pty_ev env_with_def demo_env_def broken_pty_def calm_pty_def idle_tick_def
      state0_def)


lemma calm_session:
  "execute_interactive_command demo_env c state0 =
     Some (Ret (0, ''> '', []),
       state0\<lparr>calls := [Popen c ''/srv/app'', Close Slave, SetRaw, Print ''> '', Wait None,
                        TcSetAttr attrs0, Close Master]\<rparr>)"
  by (simp add: pty_ev demo_env_def calm_pty_def idle_tick_def state0_def)

theorem restoration_exactly_once_witness:
  "openpty_r (pty_r (env_with interrupted_pty) state0 ''python3 -i'') = Ret ()
   \<and> popen_r (pty_r (env_with interrupted_pty) state0 ''python3 -i'') = Ret ()
   \<and> close_slave_r (pty_r (env_with interrupted_pty) state0 ''python3 -i'') = Ret ()
   \<and> (\<exists>st'. execute_interactive_command (env_with interrupted_pty) ''python3 -i'' state0 =
               Some (Ret (- 1, [], []), st')
            \<and> filter is_restore (calls st') = [TcSetAttr attrs0, Close Master]
            \<and> tty_attrs st' = attrs0)
   \<and> (\<exists>st'. execute_interactive_command (env_with broken_pty) ''python3 -i'' state0 =
               Some (Ret (1, [], ''[Errno 9] Bad file descriptor''), st')
            \<and> filter is_restore (calls st') = [TcSetAttr attrs0, Close Master]
            \<and> tty_attrs st' = attrs0)
   \<and> (\<exists>st'. execute_interactive_command demo_env ''python3 -i'' state0 =
               Some (Ret (0, ''> '', []), st')
            \<and> filter is_restore (calls st') = [TcSetAttr attrs0, Close Master]
            \<and> tty_attrs st' = attrs0)"
proof -
  have i: "openpty_r (pty_r (env_with interrupted_pty) state0 ''python3 -i'') = Ret ()"
      "popen_r (pty_r (env_with interrupted_pty) state0 ''python3 -i'') = Ret ()"
      "close_slave_r (pty_r (env_with interrupted_pty) state0 ''python3 -i'') = Ret ()"
    by (simp_all add: env_with_def interrupted_pty_def calm_pty_def)
  have b: "openpty_r (pty_r (env_with broken_pty) state0 ''python3 -i'') = Ret ()"
      "popen_r (pty_r (env_with broken_pty) state0 ''python3 -i'') = Ret ()"
      "close_slave_r (pty_r (env_with broken_pty) state0 ''python3 -i'') = Ret ()"
    by (simp_all add: env_with_def broken_pty_def calm_pty_def)
  have c: "openpty_r (pty_r demo_env state0 ''python3 -i'') = Ret ()"
      "popen_r (pty_r demo_env state0 ''python3 -i'') = Ret ()"
      "close_slave_r (pty_r demo_env state0 ''python3 -i'') = Ret ()"
    by (simp_all add: demo_env_def calm_pty_def)
  have g: "tcgetattr_r (pty_r (env_with interrupted_pty) state0 ''python3 -i'') = Ret ()"
      "tcsetattr_r (pty_r (env_with interrupted_pty) state0 ''python3 -i'') = Ret ()"
      "tcgetattr_r (pty_r (env_with broken_pty) state0 ''python3 -i'') = Ret ()"
      "tcsetattr_r (pty_r (env_with broken_pty) state0 ''python3 -i'') = Ret ()"
      "tcgetattr_r (pty_r demo_env state0 ''python3 -i'') = Ret ()"
      "tcsetattr_r (pty_r demo_env state0 ''python3 -i'') = Ret ()"
    by (simp_all add: env_with_def demo_env_def interrupted_pty_def broken_pty_def calm_pty_def)
  have s: "calls state0 = []" "tty_attrs state0 = attrs0" by (simp_all add: state0_def)
  note t = restoration_exactly_once
  from t [OF i interrupt_in_select_is_handled] t [OF b exception_in_select_is_reported]
    t [OF c calm_session] i
  show ?thesis
    unfolding g s by (simp add: interrupt_in_select_is_handled exception_in_select_is_reported
        calm_session)
qed

text \<open>
  When the child cannot be spawned there is no session: the error is reported and
  neither descriptor of the pair is closed.
\<close>

lemma spawn_failure_skips_restoration:
  assumes "openpty_r (pty_r e st command) = Ret ()"
      and "popen_r (pty_r e st command) = Raise (OSError m)"
  shows "execute_interactive_command e command st =
           Some (Ret (1, [], m), log (Popen command (current_dir st)) st)"
  using assms by (simp add: execute_interactive_command_def Let_def)

text \<open>
  The handler, for a \<open>KeyboardInterrupt\<close> that an operation of the loop raises all the
  same: an interrupt that leaves the inner \<open>try\<close> yields exit code -1 after
  \<open>SIGTERM\<close> to the process group, a wait of two seconds and, when that wait raises,
  \<open>SIGKILL\<close> and a wait of one second.
\<close>

lemma interrupt_reaching_handler:
  assumes "enter_raw e p st = (old, st1)"
      and "session_try p st1 = Some (Raise KeyboardInterrupt, buf, st2)"
  shows "session e p st = Some (Ret (- 1, buf, []), restore p old (on_interrupt p st2))"
  using assms by (simp add: session_def)

lemma on_interrupt_calls:
  assumes "getpgid_term_r p = Ret ()" "killpg_term_r p = Ret ()"
  shows "calls (on_interrupt p st) =
           calls st @ [Killpg SIGTERM, Wait (Some 2)] @
             (case wait2_r p of
                Ret u \<Rightarrow> []
              | Raise x \<Rightarrow>
                  (case getpgid_kill_r p of
                     Raise y \<Rightarrow> []
                   | Ret u \<Rightarrow>
                       Killpg SIGKILL #
                         (case killpg_kill_r p of Ret u \<Rightarrow> [Wait (Some 1)] | Raise y \<Rightarrow> [])))"
  using assms by (simp add: on_interrupt_def force_kill_def log_def split: res.splits)

text \<open>
  C9. A user interrupt during the multiplexing loop does not cancel the session. A
  \<open>SIGINT\<close> that reaches the shell while \<open>select\<close> waits runs \<open>_signal_handler\<close>, which
  prints and returns: no \<open>KeyboardInterrupt\<close> is raised, the handler of the session is
  not entered, no signal goes to the process group, and the session ends only when the
  child does, with the child's exit code (here 0). With the terminal in raw mode Ctrl+C
  is a byte that the loop forwards to the child; when the child dies of it the session
  returns the child's code (here -2), again without \<open>SIGTERM\<close> or \<open>SIGKILL\<close> and not -1.
\<close>

theorem sigint_does_not_cancel:
  "execute_interactive_command (env_with sigint_pty) ''python3 -i'' state0 =
     Some (Ret (0, [], []),
       state0\<lparr>calls := [Popen ''python3 -i'' ''/srv/app'', Close Slave, SetRaw,
                        Console interrupted_notice, Wait None, TcSetAttr attrs0,
                        Close Master]\<rparr>)
   \<and> execute_interactive_command (env_with ctrl_c_pty) ''python3 -i'' state0 =
       Some (Ret (- 2, [], []),
         state0\<lparr>calls := [Popen ''python3 -i'' ''/srv/app'', Close Slave, SetRaw,
                          Write [CHR 0x03], Wait None, TcSetAttr attrs0, Close Master]\<rparr>)"
  by (simp add: pty_ev env_with_def demo_env_def sigint_pty_def ctrl_c_pty_def calm_pty_def
      idle_tick_def state0_def)

section \<open>Routing of interactive commands\<close>

text \<open>
  C10. A command whose lower-cased text contains \<open>python -i\<close>, \<open>node\<close>, \<open>irb\<close> or
  \<open>ghci\<close> anywhere (so also \<open>ls node_modules\<close>) is judged interactive. The dispatcher
  then runs it as a PTY session unless the stripped command starts with \<open>cd \<close>: a
  directory change is tested first and is handled by \<open>os.chdir\<close> alone.
\<close>

theorem repl_names_are_interactive:
  assumes "\<exists>prog \<in> set [''python -i'', ''node'', ''irb'', ''ghci'']. contains (lower command) prog"
  shows "is_interactive_command e st command
         \<and> (\<not> startswith (strip command) ''cd '' \<longrightarrow>
               execute_command e command st = execute_interactive_command e command st)
         \<and> (startswith (strip command) ''cd '' \<longrightarrow>
               (case execute_command e command st of
                  None \<Rightarrow> False
                | Some (r, st') \<Rightarrow> calls st' = calls st @ [Chdir (cd_target e command)]))"
proof (intro conjI impI)
  show i: "is_interactive_command e st command"
    using assms unfolding is_interactive_command_def by blast
  assume "\<not> startswith (strip command) ''cd ''"
  with i show "execute_command e command st = execute_interactive_command e command st"
    by (simp add: execute_command_def execute_interactive_guarded)
next
  assume "startswith (strip command) ''cd ''"
  then show "case execute_command e command st of
                  None \<Rightarrow> False
                | Some (r, st') \<Rightarrow> calls st' = calls st @ [Chdir (cd_target e command)]"
    by (simp add: execute_command_def Let_def log_def split: res.splits exn.splits)
qed

theorem repl_names_are_interactive_witness:
  "contains (lower ''ls node_modules'') ''node''
   \<and> \<not> startswith (strip ''ls node_modules'') ''cd ''
   \<and> is_interactive_command demo_env state0 ''ls node_modules''
   \<and> execute_command demo_env ''ls node_modules'' state0 =
       Some (Ret (0, ''> '', []),
         state0\<lparr>calls := [Popen ''ls node_modules'' ''/srv/app'', Close Slave, SetRaw,
                          Print ''> '', Wait None, TcSetAttr attrs0, Close Master]\<rparr>)"
proof -
  have a: "contains (lower ''ls node_modules'') ''node''" by (simp add: string_ev)
  then have b: "\<exists>prog \<in> set [''python -i'', ''node'', ''irb'', ''ghci''].
      contains (lower ''ls node_modules'') prog" by simp
  have c: "\<not> startswith (strip ''ls node_modules'') ''cd ''" by (simp add: string_ev)
  from repl_names_are_interactive [OF b, of demo_env state0] a c calm_session
  show ?thesis by simp
qed

text \<open>
  Against C10 as stated: \<open>cd node_modules\<close> contains \<open>node\<close> and the detector says
  interactive, yet the dispatcher changes the directory and opens no PTY.
\<close>

theorem cd_precedes_interactivity:
  "contains (lower ''cd node_modules'') ''node''
   \<and> is_interactive_command demo_env state0 ''cd node_modules''
   \<and> execute_command demo_env ''cd node_modules'' state0 =
       Some (Ret (0, ''Changed directory to /srv/app/node_modules'', []),
         state0\<lparr>current_dir := ''/srv/app/node_modules'', cwd := ''/srv/app/node_modules'',
                calls := [Chdir ''node_modules'']\<rparr>)
   \<and> execute_command demo_env ''cd node_modules'' state0 \<noteq>
       execute_interactive_command demo_env ''cd node_modules'' state0"
proof -
  have a: "contains (lower ''cd node_modules'') ''node''" by (simp add: string_ev)
  then have i: "is_interactive_command demo_env state0 ''cd node_modules''"
    unfolding is_interactive_command_def by simp
  have s: "startswith (strip ''cd node_modules'') ''cd ''" by (simp add: string_ev)
  have t: "cd_target demo_env ''cd node_modules'' = ''node_modules''"
    by (simp add: cd_target_def string_ev demo_env_def)
  have x: "execute_command demo_env ''cd node_modules'' state0 =
       Some (Ret (0, ''Changed directory to /srv/app/node_modules'', []),
         state0\<lparr>current_dir := ''/srv/app/node_modules'', cwd := ''/srv/app/node_modules'',
                calls := [Chdir ''node_modules'']\<rparr>)"
    using s by (simp add: execute_command_def t Let_def) (simp add: demo_env_def state0_def log_def)
  from a i x show ?thesis by (simp add: calm_session)
qed

section \<open>Properties of the orchestrator\<close>

lemma run_commands_prefix:
  "run_ok e pre st = Some st1 \<Longrightarrow>
   run_commands e auto_confirm (pre @ cs) n st = run_commands e auto_confirm cs (n + length pre) st1"
proof (induction pre arbitrary: n st)
  case Nil
  then show ?case by simp
next
  case (Cons c pre)
  from Cons.prems obtain out err st0
    where c: "execute_command e c st = Some (Ret (0, out, err), st0)"
      and r: "run_ok e pre st0 = Some st1"
    by (auto split: option.splits res.splits prod.splits if_splits)
  from Cons.IH [OF r, of "n + 1"] c show ?case by simp
qed

text \<open>
  C2. Let the commands before \<open>command\<close> all return 0 and \<open>command\<close> return a non-zero
  exit code. Without \<open>auto_confirm\<close> the run ends there: the commands after it have no
  influence on the outcome, which is that of the error handler applied to the failure,
  so none of them is dispatched. With \<open>auto_confirm\<close> the loop does not stop: it goes on
  with the remaining commands from the state the failed command left, whatever the
  exit code.
\<close>

theorem halts_at_first_failure_when_confirming:
  assumes "run_ok e pre st = Some st1"
      and "execute_command e command st1 = Some (Ret (returncode, out, err), st2)"
      and "returncode \<noteq> 0"
  shows "execute_commands_with_confirmation e (pre @ command # rest) False st =
           execute_commands_with_confirmation e (pre @ [command]) False st
         \<and> (confirm_r e st \<longrightarrow>
              execute_commands_with_confirmation e (pre @ command # rest) False st =
                (case handle_command_error e command returncode out err st2 of
                   None \<Rightarrow> None
                 | Some (Raise x, st3) \<Rightarrow> Some (Raise x, st3)
                 | Some (Ret u, st3) \<Rightarrow> Some (Ret (0 < length pre), st3)))
         \<and> execute_commands_with_confirmation e (pre @ command # rest) True st =
             (case run_commands e True rest (length pre) st2 of
                None \<Rightarrow> None
              | Some (Raise x, st3) \<Rightarrow> Some (Raise x, st3)
              | Some (Ret success_count, st3) \<Rightarrow> Some (Ret (0 < success_count), st3))"
proof -
  have stop: "run_commands e False (pre @ command # cs) 0 st =
      (case handle_command_error e command returncode out err st2 of
         None \<Rightarrow> None
       | Some (Raise x, st3) \<Rightarrow> Some (Raise x, st3)
       | Some (Ret u, st3) \<Rightarrow> Some (Ret (length pre), st3))" for cs
    using assms(2,3) by (simp add: run_commands_prefix [OF assms(1)])
  have go: "run_commands e True (pre @ command # rest) 0 st =
      run_commands e True rest (length pre) st2"
    using assms(2,3) by (simp add: run_commands_prefix [OF assms(1)])
  have 1: "execute_commands_with_confirmation e (pre @ command # rest) False st =
           execute_commands_with_confirmation e (pre @ [command]) False st"
    by (simp add: execute_commands_with_confirmation_def stop)
  have 2: "execute_commands_with_confirmation e (pre @ command # rest) False st =
                (case handle_command_error e command returncode out err st2 of
                   None \<Rightarrow> None
                 | Some (Raise x, st3) \<Rightarrow> Some (Raise x, st3)
                 | Some (Ret u, st3) \<Rightarrow> Some (Ret (0 < length pre), st3))"
    if "confirm_r e st"
    using that
    by (simp add: execute_commands_with_confirmation_def stop
        split: option.splits res.splits prod.splits)
  have 3: "execute_commands_with_confirmation e (pre @ command # rest) True st =
             (case run_commands e True rest (length pre) st2 of
                None \<Rightarrow> None
              | Some (Raise x, st3) \<Rightarrow> Some (Raise x, st3)
              | Some (Ret success_count, st3) \<Rightarrow> Some (Ret (0 < success_count), st3))"
    by (simp add: execute_commands_with_confirmation_def go)
  from 1 2 3 show ?thesis by blast
qed

text \<open>
  With \<open>auto_confirm\<close> the loop over a list is the loop over its first part followed by
  the loop over the rest, whatever the exit codes: no failure ends it.
\<close>

lemma auto_confirm_runs_all:
  "run_commands e True (cs1 @ cs2) n st =
     (case run_commands e True cs1 n st of
        None \<Rightarrow> None
      | Some (Raise x, st1) \<Rightarrow> Some (Raise x, st1)
      | Some (Ret k, st1) \<Rightarrow> run_commands e True cs2 k st1)"
proof (induction cs1 arbitrary: n st)
  case Nil
  then show ?case by simp
next
  case (Cons c cs1)
  show ?case
  proof (cases "execute_command e c st")
    case None
    then show ?thesis by simp
  next
    case (Some a)
    obtain r st0 where a: "a = (r, st0)" by (cases a)
    show ?thesis
    proof (cases r)
      case (Raise x)
      with Some a show ?thesis by simp
    next
      case (Ret v)
      obtain rc out err where v: "v = (rc, out, err)" by (cases v)
      from Cons.IH [of "n + 1" st0] Cons.IH [of n st0] Some a Ret v
      show ?thesis by simp
    qed
  qed
qed

lemma not_interactive_true: "\<not> is_interactive_command demo_env st ''true''"
  by (simp add: is_interactive_command_def string_ev suffix_to_prefix first_token_def)

lemma not_interactive_false: "\<not> is_interactive_command demo_env st ''false''"
  by (simp add: is_interactive_command_def string_ev suffix_to_prefix first_token_def)

lemma not_interactive_echo: "\<not> is_interactive_command demo_env st ''echo done''"
  by (simp add: is_interactive_command_def string_ev suffix_to_prefix first_token_def)

lemma demo_true:
  "execute_command demo_env ''true'' st = Some (Ret (0, [], []), log (Shell ''true'' (current_dir st)) st)"
  using not_interactive_true [of st]
  by (simp add: execute_command_def string_ev run_shell_def demo_env_def)

lemma demo_false:
  "execute_command demo_env ''false'' st = Some (Ret (1, [], []), log (Shell ''false'' (current_dir st)) st)"
  using not_interactive_false [of st]
  by (simp add: execute_command_def string_ev run_shell_def demo_env_def)

lemma demo_echo:
  "execute_command demo_env ''echo done'' st =
     Some (Ret (0, [], []), log (Shell ''echo done'' (current_dir st)) st)"
  using not_interactive_echo [of st]
  by (simp add: execute_command_def string_ev run_shell_def demo_env_def)

text \<open>
  Against C2 as stated: with \<open>auto_confirm\<close>, \<open>false\<close> returns 1 and \<open>echo done\<close> is
  spawned all the same.
\<close>

theorem auto_confirm_runs_past_failure:
  "execute_command demo_env ''false'' state0 =
     Some (Ret (1, [], []), state0\<lparr>calls := [Shell ''false'' ''/srv/app'']\<rparr>)
   \<and> execute_commands_with_confirmation demo_env [''false'', ''echo done''] True state0 =
       Some (Ret True,
         state0\<lparr>calls := [Shell ''false'' ''/srv/app'', Shell ''echo done'' ''/srv/app'']\<rparr>)"
  by (simp add: execute_commands_with_confirmation_def demo_false demo_echo log_def state0_def)

theorem halts_at_first_failure_when_confirming_witness:
  "run_ok demo_env [''true''] state0 = Some (log (Shell ''true'' ''/srv/app'') state0)
   \<and> execute_command demo_env ''false'' (log (Shell ''true'' ''/srv/app'') state0) =
       Some (Ret (1, [], []),
         state0\<lparr>calls := [Shell ''true'' ''/srv/app'', Shell ''false'' ''/srv/app'']\<rparr>)
   \<and> confirm_r demo_env state0
   \<and> execute_commands_with_confirmation demo_env [''true'', ''false'', ''echo done''] False state0 =
       Some (Ret True,
         state0\<lparr>calls := [Shell ''true'' ''/srv/app'', Shell ''false'' ''/srv/app'']\<rparr>)
   \<and> execute_commands_with_confirmation demo_env [''true'', ''false'', ''echo done''] True state0 =
       Some (Ret True,
         state0\<lparr>calls := [Shell ''true'' ''/srv/app'', Shell ''false'' ''/srv/app'',
                          Shell ''echo done'' ''/srv/app'']\<rparr>)"
proof -
  have a: "run_ok demo_env [''true''] state0 = Some (log (Shell ''true'' ''/srv/app'') state0)"
    by (simp add: demo_true state0_def)
  have b: "execute_command demo_env ''false'' (log (Shell ''true'' ''/srv/app'') state0) =
       Some (Ret (1, [], []),
         state0\<lparr>calls := [Shell ''true'' ''/srv/app'', Shell ''false'' ''/srv/app'']\<rparr>)"
    by (simp add: demo_false log_def state0_def)
  have c: "(1::int) \<noteq> 0" by simp
  have d: "confirm_r demo_env state0" by (simp add: demo_env_def)
  have h: "handle_command_error demo_env ''false'' 1 [] [] s = Some (Ret (), s)" for s
    by (simp add: demo_env_def)
  have g: "run_commands demo_env True [''echo done''] (length [''true''])
        (state0\<lparr>calls := [Shell ''true'' ''/srv/app'', Shell ''false'' ''/srv/app'']\<rparr>) =
      Some (Ret 2, state0\<lparr>calls := [Shell ''true'' ''/srv/app'', Shell ''false'' ''/srv/app'',
                          Shell ''echo done'' ''/srv/app'']\<rparr>)"
    by (simp add: demo_echo log_def state0_def)
  note t = halts_at_first_failure_when_confirming [OF a b c, of "[''echo done'']"]
  note t2 = t [THEN conjunct2, THEN conjunct1, rule_format, OF d]
  note t3 = t [THEN conjunct2, THEN conjunct2]
  have x: "execute_commands_with_confirmation demo_env
      ([''true''] @ ''false'' # [''echo done'']) False state0 =
       Some (Ret True,
         state0\<lparr>calls := [Shell ''true'' ''/srv/app'', Shell ''false'' ''/srv/app'']\<rparr>)"
    using t2 by (simp add: h)
  have y: "execute_commands_with_confirmation demo_env
      ([''true''] @ ''false'' # [''echo done'']) True state0 =
       Some (Ret True,
         state0\<lparr>calls := [Shell ''true'' ''/srv/app'', Shell ''false'' ''/srv/app'',
                          Shell ''echo done'' ''/srv/app'']\<rparr>)"
    using t3 by (simp only: g) simp
  from a b d x y show ?thesis by simp
qed

end
